theory Spec2Isabelle
  imports Main "HOL-Library.Sublist"
begin

unbundle bit_operations_syntax

section \<open>JSON values\<close>

text \<open>
  The values carried by operations and stored in documents are JavaScript values.
  Numbers are restricted to integers (so \<open>NaN\<close> does not occur); \<open>JUndefined\<close> is the
  value of an absent field.
\<close>

datatype jval =
    JUndefined
  | JNull
  | JBool bool
  | JNum int
  | JStr string
  | JArr "jval list"
  | JObj "(string \<times> jval) list"

text \<open>JavaScript truthiness, as tested by \<^verbatim>\<open>if (this.val)\<close> and \<^verbatim>\<open>if (!data.val)\<close>.\<close>

fun truthy :: "jval \<Rightarrow> bool" where
  "truthy JUndefined = False"
| "truthy JNull = False"
| "truthy (JBool b) = b"
| "truthy (JNum n) = (n \<noteq> 0)"
| "truthy (JStr s) = (s \<noteq> [])"
| "truthy (JArr xs) = True"
| "truthy (JObj kvs) = True"

text \<open>lodash \<^verbatim>\<open>cloneDeep\<close>: a deep copy of a value is the same value.\<close>

definition cloneDeep :: "jval \<Rightarrow> jval" where
  "cloneDeep v = v"

section \<open>Leaf operations\<close>

text \<open>
  \<^verbatim>\<open>TextOperation\<close> and \<^verbatim>\<open>ArrayOperation\<close> are required by the source but are not part
  of it. Their methods are taken as parameters: a leaf implementation is a record of the
  four methods the object operations call. A leaf method that throws returns \<open>Inl\<close> with
  the message of the JavaScript \<^verbatim>\<open>Error\<close>.
\<close>

record 'o leaf =
  leaf_apply :: "'o \<Rightarrow> jval \<Rightarrow> string + jval"
  leaf_invert :: "'o \<Rightarrow> 'o"
  leaf_isNOP :: "'o \<Rightarrow> bool"
  leaf_transform :: "'o \<Rightarrow> 'o \<Rightarrow> string + ('o \<times> 'o)"

text \<open>
  A diff is an object flagged \<^verbatim>\<open>_isTextOperation\<close> or \<^verbatim>\<open>_isArrayOperation\<close>; the
  constructor rejects anything else, which the type excludes here.
\<close>

datatype ('t, 'r) leafdiff = TextOperation 't | ArrayOperation 'r

datatype ptype = PString | PArray

section \<open>Object operations\<close>

datatype optype = NOP | CREATE | DELETE | UPDATE | SET

text \<open>
  An \<^verbatim>\<open>ObjectOperation\<close> is a mutable JavaScript object; the transformation rules
  overwrite single fields (\<^verbatim>\<open>a.type = NOP\<close>) and leave the others in place. It is
  therefore a record of all its fields, an absent field being \<open>None\<close> or \<open>JUndefined\<close>.
  The type tag ranges over the five constants of the source; the constructor rejects
  every other tag.
\<close>

record ('t, 'r) ObjectOperation =
  otype :: optype
  path :: "string list option"
  val :: jval
  original :: jval
  diff :: "('t, 'r) leafdiff option"
  propertyType :: "ptype option"

datatype ('t, 'r) error =
    Error string
  | TypeError string
  | Conflict "('t, 'r) ObjectOperation" "('t, 'r) ObjectOperation"

text \<open>The result of a leaf method, with its failure turned into an \<^verbatim>\<open>Error\<close>.\<close>

definition lift_leaf :: "string + 'a \<Rightarrow> ('t, 'r) error + 'a" where
  "lift_leaf r = (case r of Inl msg \<Rightarrow> Inl (Error msg) | Inr x \<Rightarrow> Inr x)"

text \<open>The constructor \<^verbatim>\<open>new ObjectOperation(data)\<close>.\<close>

definition ObjectOperation ::
  "('t, 'r) ObjectOperation \<Rightarrow> ('t, 'r) error + ('t, 'r) ObjectOperation" where
  "ObjectOperation data =
     (if otype data = NOP then
        Inr \<lparr>otype = NOP, path = None, val = JUndefined, original = JUndefined,
             diff = None, propertyType = None\<rparr>
      else if path data = None then Inl (Error ''Invalid data: path is mandatory.'')
      else if otype data = CREATE \<or> otype data = DELETE then
        (if \<not> truthy (val data) then Inl (Error ''Invalid data: value is missing.'')
         else Inr \<lparr>otype = otype data, path = path data, val = val data,
                   original = JUndefined, diff = None, propertyType = None\<rparr>)
      else if otype data = UPDATE then
        (case diff data of
           Some d \<Rightarrow>
             Inr \<lparr>otype = UPDATE, path = path data, val = JUndefined, original = JUndefined,
                  diff = Some d,
                  propertyType =
                    Some (case d of TextOperation _ \<Rightarrow> PString | ArrayOperation _ \<Rightarrow> PArray)\<rparr>
         | None \<Rightarrow> Inl (Error ''Invalid data: diff is mandatory for update operation.''))
      else
        Inr \<lparr>otype = SET, path = path data, val = val data, original = original data,
             diff = None, propertyType = None\<rparr>)"

text \<open>The factories.\<close>

definition Create :: "string list \<Rightarrow> jval \<Rightarrow> ('t, 'r) error + ('t, 'r) ObjectOperation" where
  "Create p v =
     ObjectOperation \<lparr>otype = CREATE, path = Some p, val = v, original = JUndefined,
                      diff = None, propertyType = None\<rparr>"

definition Delete :: "string list \<Rightarrow> jval \<Rightarrow> ('t, 'r) error + ('t, 'r) ObjectOperation" where
  "Delete p v =
     ObjectOperation \<lparr>otype = DELETE, path = Some p, val = v, original = JUndefined,
                      diff = None, propertyType = None\<rparr>"

definition Update ::
  "string list \<Rightarrow> ('t, 'r) leafdiff \<Rightarrow> ('t, 'r) error + ('t, 'r) ObjectOperation" where
  "Update p d =
     ObjectOperation \<lparr>otype = UPDATE, path = Some p, val = JUndefined, original = JUndefined,
                      diff = Some d, propertyType = None\<rparr>"

definition Set :: "string list \<Rightarrow> jval \<Rightarrow> jval \<Rightarrow> ('t, 'r) error + ('t, 'r) ObjectOperation" where
  "Set p oldVal newVal =
     ObjectOperation \<lparr>otype = SET, path = Some p, val = cloneDeep newVal,
                      original = cloneDeep oldVal, diff = None, propertyType = None\<rparr>"

text \<open>An operation is well formed when it is one the constructor returns.\<close>

definition wellformed :: "('t, 'r) ObjectOperation \<Rightarrow> bool" where
  "wellformed a = (ObjectOperation a = Inr a)"

subsection \<open>The document adapter\<close>

text \<open>
  Modelled from the spec: \<^verbatim>\<open>DataObject\<close>, the adapter over the document, is not part of
  the source. The spec gives it \<^verbatim>\<open>get(path) -> value|undefined\<close>, \<^verbatim>\<open>set(path, value)\<close>
  and \<^verbatim>\<open>delete(path, "strict")\<close>, which fails if the path is absent; different paths are
  independent. A document is the function from paths to values, an absent path holding
  \<open>JUndefined\<close>.
\<close>

type_synonym DataObject = "string list \<Rightarrow> jval"

definition DataObject_get :: "DataObject \<Rightarrow> string list \<Rightarrow> jval" where
  "DataObject_get obj p = obj p"

definition DataObject_set :: "DataObject \<Rightarrow> string list \<Rightarrow> jval \<Rightarrow> DataObject" where
  "DataObject_set obj p v = obj(p := v)"

definition DataObject_delete ::
  "DataObject \<Rightarrow> string list \<Rightarrow> ('t, 'r) error + DataObject" where
  "DataObject_delete obj p =
     (if obj p = JUndefined then Inl (Error ''strict delete of an absent path'')
      else Inr (obj(p := JUndefined)))"

definition empty_doc :: DataObject where
  "empty_doc = (\<lambda>p. JUndefined)"

subsection \<open>apply, clone, isNOP, invert\<close>

text \<open>
  \<^verbatim>\<open>diff.apply(oldVal)\<close>, dispatched as JavaScript does on the object the diff is.
\<close>

definition diff_apply ::
  "'t leaf \<Rightarrow> 'r leaf \<Rightarrow> ('t, 'r) leafdiff \<Rightarrow> jval \<Rightarrow> ('t, 'r) error + jval" where
  "diff_apply T A d v =
     (case d of
        TextOperation t \<Rightarrow> lift_leaf (leaf_apply T t v)
      | ArrayOperation r \<Rightarrow> lift_leaf (leaf_apply A r v))"

definition diff_isNOP :: "'t leaf \<Rightarrow> 'r leaf \<Rightarrow> ('t, 'r) leafdiff \<Rightarrow> bool" where
  "diff_isNOP T A d =
     (case d of TextOperation t \<Rightarrow> leaf_isNOP T t | ArrayOperation r \<Rightarrow> leaf_isNOP A r)"

text \<open>
  \<^verbatim>\<open>apply(obj)\<close>. The adapter is always called with the path of the operation; an
  operation without a path or, for an update, without a diff dereferences \<^verbatim>\<open>undefined\<close>.
\<close>

definition apply_op ::
  "'t leaf \<Rightarrow> 'r leaf \<Rightarrow> ('t, 'r) ObjectOperation \<Rightarrow> DataObject \<Rightarrow> ('t, 'r) error + DataObject"
  where
  "apply_op T A this obj =
     (if otype this = NOP then Inr obj
      else case path this of
        None \<Rightarrow> Inl (TypeError ''path is undefined'')
      | Some p \<Rightarrow>
          if otype this = CREATE then Inr (DataObject_set obj p (cloneDeep (val this)))
          else if otype this = DELETE then DataObject_delete obj p
          else if otype this = UPDATE then
            (case diff this of
               None \<Rightarrow> Inl (TypeError ''diff is undefined'')
             | Some d \<Rightarrow>
                 (case diff_apply T A d (DataObject_get obj p) of
                    Inl e \<Rightarrow> Inl e
                  | Inr newVal \<Rightarrow> Inr (DataObject_set obj p newVal)))
          else Inr (DataObject_set obj p (cloneDeep (val this))))"

text \<open>
  \<^verbatim>\<open>clone()\<close>: the data handed to the constructor holds \<^verbatim>\<open>type\<close> and \<^verbatim>\<open>path\<close>, \<^verbatim>\<open>val\<close>
  only if it is truthy, \<^verbatim>\<open>diff\<close> only if present (a copy of a leaf diff is the same
  value), and never \<^verbatim>\<open>original\<close>.
\<close>

definition clone :: "('t, 'r) ObjectOperation \<Rightarrow> ('t, 'r) error + ('t, 'r) ObjectOperation" where
  "clone this =
     ObjectOperation
       \<lparr>otype = otype this, path = path this,
        val = (if truthy (val this) then cloneDeep (val this) else JUndefined),
        original = JUndefined,
        diff = diff this,
        propertyType = None\<rparr>"

text \<open>
  \<^verbatim>\<open>isNOP()\<close> returns \<^verbatim>\<open>true\<close> for the tag NOP, the answer of the diff for an update, and
  \<^verbatim>\<open>undefined\<close> (falsy) otherwise.
\<close>

definition isNOP :: "'t leaf \<Rightarrow> 'r leaf \<Rightarrow> ('t, 'r) ObjectOperation \<Rightarrow> ('t, 'r) error + bool" where
  "isNOP T A this =
     (if otype this = NOP then Inr True
      else if otype this = UPDATE then
        (case diff this of
           None \<Rightarrow> Inl (TypeError ''diff is undefined'')
         | Some d \<Rightarrow> Inr (diff_isNOP T A d))
      else Inr False)"

text \<open>
  \<^verbatim>\<open>invert()\<close>. The leaf diff goes through \<^verbatim>\<open>fromJSON(diff.toJSON())\<close>, a copy, before it
  is inverted.
\<close>

definition invert ::
  "'t leaf \<Rightarrow> 'r leaf \<Rightarrow> ('t, 'r) ObjectOperation \<Rightarrow> ('t, 'r) error + ('t, 'r) ObjectOperation"
  where
  "invert T A this =
     (if otype this = NOP then
        ObjectOperation \<lparr>otype = NOP, path = None, val = JUndefined, original = JUndefined,
                         diff = None, propertyType = None\<rparr>
      else case ObjectOperation this of
        Inl e \<Rightarrow> Inl e
      | Inr result \<Rightarrow>
          if otype this = CREATE then Inr (result\<lparr>otype := DELETE\<rparr>)
          else if otype this = DELETE then Inr (result\<lparr>otype := CREATE\<rparr>)
          else if otype this = UPDATE then
            (case diff this of
               None \<Rightarrow> Inl (TypeError ''diff is undefined'')
             | Some (TextOperation t) \<Rightarrow>
                 Inr (result\<lparr>diff := Some (TextOperation (leaf_invert T t))\<rparr>)
             | Some (ArrayOperation r) \<Rightarrow>
                 Inr (result\<lparr>diff := Some (ArrayOperation (leaf_invert A r))\<rparr>))
          else Inr (result\<lparr>val := original this, original := val this\<rparr>))"

subsection \<open>Transformation\<close>

definition hasConflict :: "('t, 'r) ObjectOperation \<Rightarrow> ('t, 'r) ObjectOperation \<Rightarrow> bool" where
  "hasConflict a b =
     (if otype a = NOP \<or> otype b = NOP then False else path a = path b)"

text \<open>
  Modelled from the spec: \<^verbatim>\<open>TextOperation.fromJSON\<close> and \<^verbatim>\<open>ArrayOperation.fromJSON\<close>
  are not part of the source. They reconstruct a leaf operation of their own kind from
  the diff they are given (the same value); a diff of the other kind is the mismatch of
  leaf types the spec makes an error, as is an absent diff.
\<close>

definition TextOperation_fromJSON :: "('t, 'r) leafdiff option \<Rightarrow> ('t, 'r) error + 't" where
  "TextOperation_fromJSON d =
     (case d of
        Some (TextOperation t) \<Rightarrow> Inr t
      | Some (ArrayOperation r) \<Rightarrow> Inl (Error ''TextOperation.fromJSON: not a text operation'')
      | None \<Rightarrow> Inl (TypeError ''diff is undefined''))"

definition ArrayOperation_fromJSON :: "('t, 'r) leafdiff option \<Rightarrow> ('t, 'r) error + 'r" where
  "ArrayOperation_fromJSON d =
     (case d of
        Some (ArrayOperation r) \<Rightarrow> Inr r
      | Some (TextOperation t) \<Rightarrow> Inl (Error ''ArrayOperation.fromJSON: not an array operation'')
      | None \<Rightarrow> Inl (TypeError ''diff is undefined''))"

text \<open>
  The rules mutate \<open>a\<close> and \<open>b\<close> in place and return nothing; here each returns the pair
  after the mutation, in the order of its arguments, or the error it throws.
\<close>

type_synonym ('t, 'r) rule =
  "('t, 'r) ObjectOperation \<Rightarrow> ('t, 'r) ObjectOperation \<Rightarrow>
   ('t, 'r) error + (('t, 'r) ObjectOperation \<times> ('t, 'r) ObjectOperation)"

definition transform_delete_delete :: "('t, 'r) rule" where
  "transform_delete_delete a b = Inr (a\<lparr>otype := NOP\<rparr>, b\<lparr>otype := NOP\<rparr>)"

definition transform_create_create :: "('t, 'r) rule" where
  "transform_create_create a b =
     Inl (Error ''Can not transform two concurring creates of the same property'')"

definition transform_delete_create :: "('t, 'r) rule" where
  "transform_delete_create a b =
     Inl (Error ''Illegal state: can not create and delete a value at the same time.'')"

text \<open>
  The body of \<^verbatim>\<open>transform_delete_update\<close> once \<open>a\<close> is the delete; \<open>flipped\<close> tells that
  the caller passed the update first.
\<close>

definition delete_update_body ::
  "'t leaf \<Rightarrow> 'r leaf \<Rightarrow> bool \<Rightarrow> ('t, 'r) rule" where
  "delete_update_body T A flipped a b =
     (case (if propertyType b = Some PString
            then (case TextOperation_fromJSON (diff b) of
                    Inl e \<Rightarrow> Inl e
                  | Inr t \<Rightarrow> lift_leaf (leaf_apply T t (val a)))
            else (case ArrayOperation_fromJSON (diff b) of
                    Inl e \<Rightarrow> Inl e
                  | Inr r \<Rightarrow> lift_leaf (leaf_apply A r (val a)))) of
        Inl e \<Rightarrow> Inl e
      | Inr v \<Rightarrow>
          if \<not> flipped then Inr (a\<lparr>otype := NOP\<rparr>, b\<lparr>otype := CREATE, val := v\<rparr>)
          else Inr (a\<lparr>val := v\<rparr>, b\<lparr>otype := NOP\<rparr>))"

text \<open>
  \<^verbatim>\<open>transform_delete_update(a, b, flipped)\<close> calls itself with the arguments swapped when
  \<open>a\<close> is not the delete. When neither is a delete the calls never end and JavaScript
  throws a \<^verbatim>\<open>RangeError\<close>; the dispatch table never calls it so.
\<close>

definition transform_delete_update :: "'t leaf \<Rightarrow> 'r leaf \<Rightarrow> ('t, 'r) rule" where
  "transform_delete_update T A a b =
     (if otype a = DELETE then delete_update_body T A False a b
      else if otype b = DELETE then
        (case delete_update_body T A True b a of
           Inl e \<Rightarrow> Inl e
         | Inr (b', a') \<Rightarrow> Inr (a', b'))
      else Inl (Error ''RangeError: Maximum call stack size exceeded''))"

definition transform_create_update :: "('t, 'r) rule" where
  "transform_create_update a b =
     Inl (Error ''Can not transform a concurring create and update of the same property'')"

definition transform_update_update :: "'t leaf \<Rightarrow> 'r leaf \<Rightarrow> ('t, 'r) rule" where
  "transform_update_update T A a b =
     (if propertyType b = Some PString then
        (case TextOperation_fromJSON (diff a) of
           Inl e \<Rightarrow> Inl e
         | Inr op_a \<Rightarrow>
             (case TextOperation_fromJSON (diff b) of
                Inl e \<Rightarrow> Inl e
              | Inr op_b \<Rightarrow>
                  (case lift_leaf (leaf_transform T op_a op_b) of
                     Inl e \<Rightarrow> Inl e
                   | Inr (t0, t1) \<Rightarrow>
                       Inr (a\<lparr>diff := Some (TextOperation t0)\<rparr>,
                            b\<lparr>diff := Some (TextOperation t1)\<rparr>))))
      else
        (case ArrayOperation_fromJSON (diff a) of
           Inl e \<Rightarrow> Inl e
         | Inr op_a \<Rightarrow>
             (case ArrayOperation_fromJSON (diff b) of
                Inl e \<Rightarrow> Inl e
              | Inr op_b \<Rightarrow>
                  (case lift_leaf (leaf_transform A op_a op_b) of
                     Inl e \<Rightarrow> Inl e
                   | Inr (t0, t1) \<Rightarrow>
                       Inr (a\<lparr>diff := Some (ArrayOperation t0)\<rparr>,
                            b\<lparr>diff := Some (ArrayOperation t1)\<rparr>)))))"

definition transform_create_set :: "('t, 'r) rule" where
  "transform_create_set a b =
     Inl (Error ''Illegal state: can not create and set a value at the same time.'')"

definition delete_set_body :: "bool \<Rightarrow> ('t, 'r) rule" where
  "delete_set_body flipped a b =
     (if \<not> flipped then Inr (a\<lparr>otype := NOP\<rparr>, b\<lparr>otype := CREATE, original := JUndefined\<rparr>)
      else Inr (a\<lparr>val := val b\<rparr>, b\<lparr>otype := NOP\<rparr>))"

text \<open>\<^verbatim>\<open>transform_delete_set(a, b, flipped)\<close>, recursive as \<^verbatim>\<open>transform_delete_update\<close> is.\<close>

definition transform_delete_set :: "('t, 'r) rule" where
  "transform_delete_set a b =
     (if otype a = DELETE then delete_set_body False a b
      else if otype b = DELETE then
        (case delete_set_body True b a of
           Inl e \<Rightarrow> Inl e
         | Inr (b', a') \<Rightarrow> Inr (a', b'))
      else Inl (Error ''RangeError: Maximum call stack size exceeded''))"

definition transform_update_set :: "('t, 'r) rule" where
  "transform_update_set a b = Inl (Error ''Unresolvable conflict: update + set.'')"

definition transform_set_set :: "('t, 'r) rule" where
  "transform_set_set a b = Inr (a\<lparr>otype := NOP\<rparr>, b\<lparr>original := val a\<rparr>)"

text \<open>The codes of the type tags and the dispatch table indexed by their bitwise or.\<close>

definition CODE :: "optype \<Rightarrow> nat" where
  "CODE t = (case t of NOP \<Rightarrow> 0 | CREATE \<Rightarrow> 1 | DELETE \<Rightarrow> 2 | UPDATE \<Rightarrow> 4 | SET \<Rightarrow> 8)"

definition transform_table :: "'t leaf \<Rightarrow> 'r leaf \<Rightarrow> nat \<Rightarrow> ('t, 'r) rule option" where
  "transform_table T A k =
     (if k = (CODE DELETE OR CODE DELETE) then Some transform_delete_delete
      else if k = (CODE DELETE OR CODE CREATE) then Some transform_delete_create
      else if k = (CODE DELETE OR CODE UPDATE) then Some (transform_delete_update T A)
      else if k = (CODE CREATE OR CODE CREATE) then Some transform_create_create
      else if k = (CODE CREATE OR CODE UPDATE) then Some transform_create_update
      else if k = (CODE UPDATE OR CODE UPDATE) then Some (transform_update_update T A)
      else if k = (CODE CREATE OR CODE SET) then Some transform_create_set
      else if k = (CODE DELETE OR CODE SET) then Some transform_delete_set
      else if k = (CODE UPDATE OR CODE SET) then Some transform_update_set
      else if k = (CODE SET OR CODE SET) then Some transform_set_set
      else None)"

record options =
  inplace :: bool
  no_conflict :: bool

text \<open>
  \<^verbatim>\<open>transform(a, b, options)\<close>. The conflict check comes first, on the operations as they
  were passed; \<^verbatim>\<open>a.isNOP() || b.isNOP()\<close> asks \<open>b\<close> only when \<open>a\<close> says no.
\<close>

definition transform ::
  "'t leaf \<Rightarrow> 'r leaf \<Rightarrow> options \<Rightarrow> ('t, 'r) rule" where
  "transform T A opts a0 b0 =
     (if no_conflict opts \<and> hasConflict a0 b0 then Inl (Conflict a0 b0)
      else
        case (if \<not> inplace opts
              then (case clone a0 of
                      Inl e \<Rightarrow> Inl e
                    | Inr a \<Rightarrow> (case clone b0 of Inl e \<Rightarrow> Inl e | Inr b \<Rightarrow> Inr (a, b)))
              else Inr (a0, b0)) of
          Inl e \<Rightarrow> Inl e
        | Inr (a, b) \<Rightarrow>
            (case isNOP T A a of
               Inl e \<Rightarrow> Inl e
             | Inr True \<Rightarrow> Inr (a, b)
             | Inr False \<Rightarrow>
                 (case isNOP T A b of
                    Inl e \<Rightarrow> Inl e
                  | Inr True \<Rightarrow> Inr (a, b)
                  | Inr False \<Rightarrow>
                      if path a = path b then
                        (case transform_table T A (CODE (otype a) OR CODE (otype b)) of
                           None \<Rightarrow> Inl (TypeError ''__transform__[...] is not a function'')
                         | Some f \<Rightarrow> f a b)
                      else Inr (a, b))))"

definition default_options :: options where
  "default_options = \<lparr>inplace = False, no_conflict = False\<rparr>"

section \<open>The hub\<close>

text \<open>
  The elements of a message, a JavaScript array such as \<^verbatim>\<open>['update', change, newVersion]\<close>,
  and a message pushed to the message queue by \<^verbatim>\<open>ServerWebSocket.send\<close>.
\<close>

datatype 'c item = Str string | Num int | Chg 'c | Chgs "'c list"

record 'c packet =
  sender :: string
  receiver :: string
  payload :: "'c item list"

text \<open>\<^verbatim>\<open>String.prototype.replace\<close> with a string pattern: the first occurrence only.\<close>

fun replace :: "string \<Rightarrow> string \<Rightarrow> string \<Rightarrow> string" where
  "replace pat rep [] = (if pat = [] then rep else [])"
| "replace pat rep (c # cs) =
     (if prefix pat (c # cs) then rep @ drop (length pat) (c # cs)
      else c # replace pat rep cs)"

text \<open>
  The state of a \<^verbatim>\<open>StubHub\<close>: the document with its id and version, the change log, the
  sockets of the web socket server (each known by its client id) and the message queue
  the sockets push to.
\<close>

record ('c, 'd) StubHub =
  doc :: 'd
  doc_id :: string
  doc_version :: int
  changes :: "'c list"
  clients :: "string list"
  messageQueue :: "'c packet list"

text \<open>
  \<^verbatim>\<open>DocumentChange\<close> and the document are required by the source but are not part of it.
  The three methods the hub calls are taken as parameters; one that throws returns \<open>Inl\<close>
  with the message and leaves its arguments as they were.
\<close>

record ('c, 'd) env =
  doc_apply :: "'d \<Rightarrow> 'c \<Rightarrow> string + 'd"
  change_clone :: "'c \<Rightarrow> 'c"
  transformInplace :: "'c \<Rightarrow> 'c \<Rightarrow> string + ('c \<times> 'c)"

text \<open>
  A handler either returns, or throws with the hub in the state it had reached.
\<close>

datatype ('c, 'd) outcome =
    Done "('c, 'd) StubHub"
  | Thrown string "('c, 'd) StubHub"

definition hub_of :: "('c, 'd) outcome \<Rightarrow> ('c, 'd) StubHub" where
  "hub_of r = (case r of Done h \<Rightarrow> h | Thrown e h \<Rightarrow> h)"

text \<open>The constructor: the hub assumes document id \<^verbatim>\<open>'doc-15'\<close> and version 1.\<close>

definition StubHub :: "'d \<Rightarrow> string list \<Rightarrow> ('c, 'd) StubHub" where
  "StubHub d cs =
     \<lparr>doc = d, doc_id = ''doc-15'', doc_version = 1, changes = [], clients = cs,
      messageQueue = []\<rparr>"

text \<open>\<^verbatim>\<open>ws.send(data)\<close>, which takes one argument.\<close>

definition send :: "string \<Rightarrow> 'c item list \<Rightarrow> ('c, 'd) StubHub \<Rightarrow> ('c, 'd) StubHub" where
  "send clientId data h =
     h\<lparr>messageQueue := messageQueue h @
         [\<lparr>sender = clientId, receiver = replace ''-server'' [] clientId, payload = data\<rparr>]\<rparr>"

definition getCollaboratorSockets :: "('c, 'd) StubHub \<Rightarrow> string \<Rightarrow> string list" where
  "getCollaboratorSockets h ws = filter (\<lambda>client. client \<noteq> ws) (clients h)"

definition hub_open :: "('c, 'd) StubHub \<Rightarrow> string \<Rightarrow> string \<Rightarrow> int \<Rightarrow> ('c, 'd) StubHub" where
  "hub_open h ws documentId version = send ws [Str ''openDone'', Num version] h"

text \<open>
  \<^verbatim>\<open>Array.prototype.splice(start)\<close>: removes the elements from \<open>start\<close> to the end and
  returns them; a negative \<open>start\<close> counts from the end. The result is the removed
  elements and the array that is left.
\<close>

definition splice :: "'a list \<Rightarrow> int \<Rightarrow> 'a list \<times> 'a list" where
  "splice xs start =
     (let len = int (length xs);
          k = nat (if start < 0 then max (len + start) 0 else min start len)
      in (drop k xs, take k xs))"

definition getChangesSinceVersion ::
  "('c, 'd) StubHub \<Rightarrow> int \<Rightarrow> 'c list \<times> ('c, 'd) StubHub" where
  "getChangesSinceVersion h version =
     (case splice (changes h) (version - 1) of
        (removed, left) \<Rightarrow> (removed, h\<lparr>changes := left\<rparr>))"

definition applyChange :: "('c, 'd) env \<Rightarrow> ('c, 'd) StubHub \<Rightarrow> 'c \<Rightarrow> ('c, 'd) outcome" where
  "applyChange E h change =
     (case doc_apply E (doc h) change of
        Inl e \<Rightarrow> Thrown e h
      | Inr d \<Rightarrow>
          Done (h\<lparr>doc := d, changes := changes h @ [change],
                  doc_version := doc_version h + 1\<rparr>))"

text \<open>
  The loop \<^verbatim>\<open>for (i = 0; i < changes.length; i++) transformInplace(changes[i], newChange)\<close>:
  the changes already transformed, those left, and the new change.
\<close>

fun transform_changes ::
  "('c, 'd) env \<Rightarrow> 'c list \<Rightarrow> 'c list \<Rightarrow> 'c \<Rightarrow> string + ('c list \<times> 'c)" where
  "transform_changes E done [] newChange = Inr (done, newChange)"
| "transform_changes E done (c # cs) newChange =
     (case transformInplace E c newChange of
        Inl e \<Rightarrow> Inl e
      | Inr (c', newChange') \<Rightarrow> transform_changes E (done @ [c']) cs newChange')"

definition send_all ::
  "string list \<Rightarrow> 'c item list \<Rightarrow> ('c, 'd) StubHub \<Rightarrow> ('c, 'd) StubHub" where
  "send_all sockets data h = fold (\<lambda>socket. send socket data) sockets h"

text \<open>\<^verbatim>\<open>commit(ws, change, version)\<close>.\<close>

definition commit ::
  "('c, 'd) env \<Rightarrow> ('c, 'd) StubHub \<Rightarrow> string \<Rightarrow> 'c \<Rightarrow> int \<Rightarrow> ('c, 'd) outcome" where
  "commit E h ws change version =
     (if doc_version h = version then
        (case applyChange E h change of
           Thrown e h' \<Rightarrow> Thrown e h'
         | Done h1 \<Rightarrow>
             let newVersion = doc_version h1;
                 h2 = send ws [Str ''commitDone'', Num newVersion] h1;
                 collaboratorSockets = getCollaboratorSockets h2 ws
             in Done (send_all collaboratorSockets
                        [Str ''update'', Chg change, Num newVersion] h2))
      else
        (case getChangesSinceVersion h (doc_version h) of
           (changes0, h1) \<Rightarrow>
             let changes1 = map (change_clone E) changes0;
                 newChange0 = change_clone E change
             in (case transform_changes E [] changes1 newChange0 of
                   Inl e \<Rightarrow> Thrown e h1
                 | Inr (changes2, newChange) \<Rightarrow>
                     (case applyChange E h1 newChange of
                        Thrown e h' \<Rightarrow> Thrown e h'
                      | Done h2 \<Rightarrow>
                          let newVersion = doc_version h2;
                              collaboratorSockets = getCollaboratorSockets h2 ws;
                              h3 = send_all collaboratorSockets
                                     [Str ''update'', Num newVersion, Chg newChange] h2
                          in Done (send ws [Str ''commitDone''] h3)))))"

text \<open>
  The messages of a client. \<^verbatim>\<open>_onMessage\<close> calls the method of the hub the message
  names; the hub has \<^verbatim>\<open>open\<close> and \<^verbatim>\<open>commit\<close> and no method \<^verbatim>\<open>close\<close>, so that a close
  message throws a \<^verbatim>\<open>TypeError\<close> and changes nothing.
\<close>

datatype 'c message = Open string int | Commit 'c int | Close string

definition onMessage ::
  "('c, 'd) env \<Rightarrow> ('c, 'd) StubHub \<Rightarrow> string \<Rightarrow> 'c message \<Rightarrow> ('c, 'd) outcome" where
  "onMessage E h ws m =
     (case m of
        Open documentId version \<Rightarrow> Done (hub_open h ws documentId version)
      | Commit change version \<Rightarrow> commit E h ws change version
      | Close documentId \<Rightarrow> Thrown ''TypeError: this[method] is undefined'' h)"

text \<open>
  The hub handling the messages of its clients one after the other; a handler that throws
  leaves the hub in the state it had reached.
\<close>

fun run ::
  "('c, 'd) env \<Rightarrow> ('c, 'd) StubHub \<Rightarrow> (string \<times> 'c message) list \<Rightarrow> ('c, 'd) StubHub" where
  "run E h [] = h"
| "run E h ((ws, m) # ms) = run E (hub_of (onMessage E h ws m)) ms"

section \<open>A sample leaf implementation\<close>

text \<open>
  Modelled from the spec: a text operation inserts or deletes at an offset of a character
  sequence, an array operation at an index of a sequence of values. This sample
  implementation of both instantiates the leaf parameters at concrete inputs. Its transform
  handles the pairs of insertions and the pairs with a NOP, and refuses the others.
\<close>

datatype 'a seqop = SeqNOP | SeqInsert nat "'a list" | SeqDelete nat "'a list"

fun seq_apply :: "'a seqop \<Rightarrow> 'a list \<Rightarrow> string + 'a list" where
  "seq_apply SeqNOP xs = Inr xs"
| "seq_apply (SeqInsert p ys) xs =
     (if p \<le> length xs then Inr (take p xs @ ys @ drop p xs)
      else Inl ''insert out of range'')"
| "seq_apply (SeqDelete p ys) xs =
     (if p + length ys \<le> length xs \<and> take (length ys) (drop p xs) = ys
      then Inr (take p xs @ drop (p + length ys) xs)
      else Inl ''delete does not match'')"

fun seq_invert :: "'a seqop \<Rightarrow> 'a seqop" where
  "seq_invert SeqNOP = SeqNOP"
| "seq_invert (SeqInsert p ys) = SeqDelete p ys"
| "seq_invert (SeqDelete p ys) = SeqInsert p ys"

fun seq_isNOP :: "'a seqop \<Rightarrow> bool" where
  "seq_isNOP SeqNOP = True"
| "seq_isNOP (SeqInsert p ys) = False"
| "seq_isNOP (SeqDelete p ys) = False"

fun seq_transform :: "'a seqop \<Rightarrow> 'a seqop \<Rightarrow> string + ('a seqop \<times> 'a seqop)" where
  "seq_transform SeqNOP b = Inr (SeqNOP, b)"
| "seq_transform a SeqNOP = Inr (a, SeqNOP)"
| "seq_transform (SeqInsert p xs) (SeqInsert q ys) =
     (if p < q then Inr (SeqInsert p xs, SeqInsert (q + length xs) ys)
      else Inr (SeqInsert (p + length ys) xs, SeqInsert q ys))"
| "seq_transform a b = Inl ''transform of a deletion is not supported''"

definition seq_leaf :: "('a list \<Rightarrow> jval) \<Rightarrow> (jval \<Rightarrow> 'a list option) \<Rightarrow> 'a seqop leaf" where
  "seq_leaf box unbox =
     \<lparr>leaf_apply = (\<lambda>op v.
        if seq_isNOP op then Inr v
        else case unbox v of
          Some xs \<Rightarrow> (case seq_apply op xs of Inl e \<Rightarrow> Inl e | Inr xs' \<Rightarrow> Inr (box xs'))
        | None \<Rightarrow> Inl ''value of the wrong type''),
      leaf_invert = seq_invert,
      leaf_isNOP = seq_isNOP,
      leaf_transform = seq_transform\<rparr>"

definition text_leaf :: "char seqop leaf" where
  "text_leaf = seq_leaf JStr (\<lambda>v. case v of JStr s \<Rightarrow> Some s | _ \<Rightarrow> None)"

definition array_leaf :: "jval seqop leaf" where
  "array_leaf = seq_leaf JArr (\<lambda>v. case v of JArr xs \<Rightarrow> Some xs | _ \<Rightarrow> None)"

type_synonym sample_op = "(char seqop, jval seqop) ObjectOperation"

text \<open>
  A sample document model for the hub: a change is a string, the document the list of the
  changes applied to it, and a transformed change is marked with a star.
\<close>

definition sample_env :: "(string, string list) env" where
  "sample_env =
     \<lparr>doc_apply = (\<lambda>d c. Inr (d @ [c])),
      change_clone = (\<lambda>c. c),
      transformInplace = (\<lambda>m c. Inr (m @ ''*'', c @ ''*''))\<rparr>"

section \<open>Properties of the leaf operations\<close>

text \<open>
  TP1 for a leaf: where the transform of two operations returns and both apply to a
  value, the transformed operations apply after the other one and give the same value.
\<close>

definition leaf_TP1 :: "'o leaf \<Rightarrow> bool" where
  "leaf_TP1 L =
     (\<forall>a b a' b' v va vb.
        leaf_transform L a b = Inr (a', b') \<and> leaf_apply L a v = Inr va \<and>
        leaf_apply L b v = Inr vb \<longrightarrow>
        (\<exists>w. leaf_apply L a' vb = Inr w \<and> leaf_apply L b' va = Inr w))"

text \<open>A leaf operation that says it is a NOP applies as the identity.\<close>

definition leaf_NOP_identity :: "'o leaf \<Rightarrow> bool" where
  "leaf_NOP_identity L = (\<forall>d v. leaf_isNOP L d \<longrightarrow> leaf_apply L d v = Inr v)"


text \<open>A leaf operation that is not a NOP gives a value, never \<open>undefined\<close>.\<close>

definition leaf_defined :: "'o leaf \<Rightarrow> bool" where
  "leaf_defined L =
     (\<forall>d v v'. leaf_apply L d v = Inr v' \<and> \<not> leaf_isNOP L d \<longrightarrow> v' \<noteq> JUndefined)"

section \<open>Sample operations\<close>

text \<open>Operations on the property \<open>x\<close> of a document, as the constructor returns them.\<close>

definition create_x :: sample_op where
  "create_x =
     \<lparr>otype = CREATE, path = Some [''x''], val = JStr ''new'', original = JUndefined,
      diff = None, propertyType = None\<rparr>"

definition delete_x :: sample_op where
  "delete_x =
     \<lparr>otype = DELETE, path = Some [''x''], val = JStr ''ab'', original = JUndefined,
      diff = None, propertyType = None\<rparr>"

text \<open>A delete of \<open>x\<close> that records a value the document does not hold.\<close>

definition delete_x_stale :: sample_op where
  "delete_x_stale =
     \<lparr>otype = DELETE, path = Some [''x''], val = JStr ''zz'', original = JUndefined,
      diff = None, propertyType = None\<rparr>"

definition set_x :: sample_op where
  "set_x =
     \<lparr>otype = SET, path = Some [''x''], val = JStr ''new'', original = JStr ''ab'',
      diff = None, propertyType = None\<rparr>"

definition set_x_zero :: sample_op where
  "set_x_zero =
     \<lparr>otype = SET, path = Some [''x''], val = JNum 0, original = JStr ''ab'',
      diff = None, propertyType = None\<rparr>"

definition update_x :: "(char seqop, jval seqop) leafdiff \<Rightarrow> sample_op" where
  "update_x d =
     \<lparr>otype = UPDATE, path = Some [''x''], val = JUndefined, original = JUndefined,
      diff = Some d,
      propertyType = Some (case d of TextOperation _ \<Rightarrow> PString | ArrayOperation _ \<Rightarrow> PArray)\<rparr>"

text \<open>The document whose only property is \<open>x\<close>, holding the string \<open>ab\<close>.\<close>

definition doc_x :: DataObject where
  "doc_x = DataObject_set empty_doc [''x''] (JStr ''ab'')"

section \<open>The invariant of the hub\<close>

text \<open>The version of the document is one more than the number of changes in the log.\<close>

definition hub_inv :: "('c, 'd) StubHub \<Rightarrow> bool" where
  "hub_inv h = (doc_version h = 1 + int (length (changes h)))"

section \<open>Sample hubs\<close>

text \<open>A hub with two clients, new and after the first client has committed a change.\<close>

definition hub0 :: "(string, string list) StubHub" where
  "hub0 = StubHub [] [''a-server'', ''b-server'']"

definition hub1 :: "(string, string list) StubHub" where
  "hub1 = run sample_env hub0 [(''a-server'', Commit ''c1'' 1)]"

section \<open>Operations and the state they were made for\<close>


text \<open>A delete records in \<open>val\<close> the value its path holds.\<close>

definition delete_records_state :: "('t, 'r) ObjectOperation \<Rightarrow> DataObject \<Rightarrow> bool" where
  "delete_records_state a s =
     (case path a of
        None \<Rightarrow> True
      | Some p \<Rightarrow> if otype a = DELETE then val a = DataObject_get s p else True)"

text \<open>
  The value of a set is kept by the transformation: it is a value (a set to \<open>undefined\<close>
  unsets its path), and unless the operations are transformed in place it is truthy, as
  \<open>clone\<close> copies no other.
\<close>

definition set_val_kept :: "options \<Rightarrow> ('t, 'r) ObjectOperation \<Rightarrow> bool" where
  "set_val_kept opts a =
     (if otype a = SET then val a \<noteq> JUndefined \<and> (inplace opts \<or> truthy (val a)) else True)"

section \<open>Errors raised by the transformation\<close>

lemma wellformed_cases:
  "wellformed a \<longleftrightarrow>
     (otype a = NOP \<and> path a = None \<and> val a = JUndefined \<and> original a = JUndefined \<and>
        diff a = None \<and> propertyType a = None)
   \<or> ((otype a = CREATE \<or> otype a = DELETE) \<and> path a \<noteq> None \<and> truthy (val a) \<and>
        original a = JUndefined \<and> diff a = None \<and> propertyType a = None)
   \<or> (otype a = UPDATE \<and> path a \<noteq> None \<and> val a = JUndefined \<and> original a = JUndefined \<and>
        (\<exists>d. diff a = Some d \<and>
           propertyType a =
             Some (case d of TextOperation _ \<Rightarrow> PString | ArrayOperation _ \<Rightarrow> PArray)))
   \<or> (otype a = SET \<and> path a \<noteq> None \<and> diff a = None \<and> propertyType a = None)"
  apply (cases a)
  apply (auto simp: wellformed_def ObjectOperation_def split: option.splits if_splits)
  done

lemma ObjectOperation_no_Conflict: "ObjectOperation d \<noteq> Inl (Conflict x y)"
  by (simp add: ObjectOperation_def split: option.splits)

lemma clone_no_Conflict: "clone a \<noteq> Inl (Conflict x y)"
  by (simp add: clone_def ObjectOperation_no_Conflict)

lemma isNOP_no_Conflict: "isNOP T A a \<noteq> Inl (Conflict x y)"
  by (simp add: isNOP_def split: option.splits)

lemma lift_leaf_no_Conflict: "lift_leaf r \<noteq> Inl (Conflict x y)"
  by (simp add: lift_leaf_def split: sum.splits)

lemma fromJSON_no_Conflict:
  "TextOperation_fromJSON d \<noteq> Inl (Conflict x y)"
  "ArrayOperation_fromJSON d \<noteq> Inl (Conflict x y)"
  by (simp_all add: TextOperation_fromJSON_def ArrayOperation_fromJSON_def
      split: option.splits leafdiff.splits)

lemmas no_Conflict0 = ObjectOperation_no_Conflict clone_no_Conflict isNOP_no_Conflict
  lift_leaf_no_Conflict fromJSON_no_Conflict

lemma delete_update_body_no_Conflict: "delete_update_body T A f a b \<noteq> Inl (Conflict x y)"
  by (auto simp: delete_update_body_def no_Conflict0 split: sum.splits if_splits)

lemma transform_delete_update_no_Conflict:
  "transform_delete_update T A a b \<noteq> Inl (Conflict x y)"
  by (auto simp: transform_delete_update_def delete_update_body_no_Conflict
      split: sum.splits if_splits)

lemma transform_update_update_no_Conflict:
  "transform_update_update T A a b \<noteq> Inl (Conflict x y)"
  by (auto simp: transform_update_update_def no_Conflict0 split: sum.splits if_splits)

lemma transform_delete_set_no_Conflict: "transform_delete_set a b \<noteq> Inl (Conflict x y)"
  by (auto simp: transform_delete_set_def delete_set_body_def split: sum.splits if_splits)

lemma table_no_Conflict:
  "transform_table T A k = Some f \<Longrightarrow> f a b \<noteq> Inl (Conflict x y)"
  by (auto simp: transform_table_def transform_delete_delete_def transform_delete_create_def
      transform_create_create_def transform_create_update_def transform_create_set_def
      transform_update_set_def transform_set_set_def transform_delete_update_no_Conflict
      transform_update_update_no_Conflict transform_delete_set_no_Conflict split: if_splits)

lemma transform_rest_no_Conflict:
  assumes "\<not> (no_conflict opts \<and> hasConflict a b)"
  shows "transform T A opts a b \<noteq> Inl (Conflict x y)"
proof
  assume c: "transform T A opts a b = Inl (Conflict x y)"
  obtain a1 b1 where ab:
    "(if \<not> inplace opts
      then (case clone a of
              Inl e \<Rightarrow> Inl e
            | Inr a' \<Rightarrow> (case clone b of Inl e \<Rightarrow> Inl e | Inr b' \<Rightarrow> Inr (a', b')))
      else Inr (a, b)) = Inr (a1, b1)"
    using c assms
    by (auto simp: transform_def clone_no_Conflict split: sum.splits if_splits)
  from c assms ab show False
    by (auto simp: transform_def isNOP_no_Conflict table_no_Conflict
        split: sum.splits if_splits bool.splits option.splits)
qed

section \<open>Cloning\<close>

lemma clone_wellformed:
  "wellformed a \<Longrightarrow>
   clone a = Inr (a\<lparr>val := (if truthy (val a) then val a else JUndefined), original := JUndefined\<rparr>)"
  apply (cases a)
  apply (auto simp: wellformed_def clone_def cloneDeep_def ObjectOperation_def split: option.splits if_splits)
  done

lemma clone_Update:
  "wellformed a \<Longrightarrow> otype a = UPDATE \<Longrightarrow> clone a = Inr a"
  by (cases a) (auto simp: clone_wellformed wellformed_cases)

lemma samples_wellformed:
  "wellformed create_x" "wellformed delete_x" "wellformed set_x" "wellformed set_x_zero"
  "wellformed (update_x d)"
  by (simp_all add: wellformed_def ObjectOperation_def create_x_def delete_x_def set_x_def
      set_x_zero_def update_x_def split: leafdiff.splits)

section \<open>The rules and the dispatch table\<close>

lemma transform_delete_set_rule:
  "otype a = DELETE \<Longrightarrow>
     transform_delete_set a b = Inr (a\<lparr>otype := NOP\<rparr>, b\<lparr>otype := CREATE, original := JUndefined\<rparr>)"
  "otype a \<noteq> DELETE \<Longrightarrow> otype b = DELETE \<Longrightarrow>
     transform_delete_set a b = Inr (a\<lparr>otype := NOP\<rparr>, b\<lparr>val := val a\<rparr>)"
  by (simp_all add: transform_delete_set_def delete_set_body_def)

text \<open>The table at the codes of the ten pairs of types, and the codes themselves.\<close>

lemma table_values:
  "transform_table T A 1 = Some transform_create_create"
  "transform_table T A (Suc 0) = Some transform_create_create"
  "transform_table T A 2 = Some transform_delete_delete"
  "transform_table T A 3 = Some transform_delete_create"
  "transform_table T A 4 = Some (transform_update_update T A)"
  "transform_table T A 5 = Some transform_create_update"
  "transform_table T A 6 = Some (transform_delete_update T A)"
  "transform_table T A 8 = Some transform_set_set"
  "transform_table T A 9 = Some transform_create_set"
  "transform_table T A 10 = Some transform_delete_set"
  "transform_table T A 12 = Some transform_update_set"
  by (simp_all add: transform_table_def CODE_def)

lemma CODE_values:
  "CODE NOP = 0" "CODE CREATE = 1" "CODE DELETE = 2" "CODE UPDATE = 4" "CODE SET = 8"
  by (simp_all add: CODE_def)

lemma transform_inplace_delete_set:
  assumes "otype a = DELETE" and "otype b = SET" and "path a = path b"
  shows "transform T A \<lparr>inplace = True, no_conflict = False\<rparr> a b
           = Inr (a\<lparr>otype := NOP\<rparr>, b\<lparr>otype := CREATE, original := JUndefined\<rparr>)"
    and "transform T A \<lparr>inplace = True, no_conflict = False\<rparr> b a
           = Inr (b\<lparr>otype := NOP\<rparr>, a\<lparr>val := val b\<rparr>)"
  using assms
  by (simp_all add: transform_def isNOP_def CODE_values table_values transform_delete_set_rule)

section \<open>Updates against updates\<close>

lemma transform_update_update_text:
  assumes "diff a = Some (TextOperation ta)" and "diff b = Some (TextOperation tb)"
    and "propertyType b = Some PString"
  shows "transform_update_update T A a b =
           (case leaf_transform T ta tb of
              Inl msg \<Rightarrow> Inl (Error msg)
            | Inr (ta', tb') \<Rightarrow>
                Inr (a\<lparr>diff := Some (TextOperation ta')\<rparr>, b\<lparr>diff := Some (TextOperation tb')\<rparr>))"
  using assms
  by (simp add: transform_update_update_def TextOperation_fromJSON_def lift_leaf_def
      split: sum.splits)

lemma transform_update_update_array:
  assumes "diff a = Some (ArrayOperation ra)" and "diff b = Some (ArrayOperation rb)"
    and "propertyType b = Some PArray"
  shows "transform_update_update T A a b =
           (case leaf_transform A ra rb of
              Inl msg \<Rightarrow> Inl (Error msg)
            | Inr (ra', rb') \<Rightarrow>
                Inr (a\<lparr>diff := Some (ArrayOperation ra')\<rparr>, b\<lparr>diff := Some (ArrayOperation rb')\<rparr>))"
  using assms
  by (simp add: transform_update_update_def ArrayOperation_fromJSON_def lift_leaf_def
      split: sum.splits)

lemma transform_update_update_mismatch:
  assumes "diff a = Some (TextOperation ta) \<and> diff b = Some (ArrayOperation rb) \<and>
             propertyType b = Some PArray
           \<or> diff a = Some (ArrayOperation ra) \<and> diff b = Some (TextOperation tb) \<and>
             propertyType b = Some PString"
  shows "\<exists>msg. transform_update_update T A a b = Inl (Error msg)"
  using assms
  by (auto simp: transform_update_update_def ArrayOperation_fromJSON_def
      TextOperation_fromJSON_def)

lemma transform_updates:
  assumes "wellformed a" and "wellformed b"
    and "otype a = UPDATE" and "otype b = UPDATE" and "path a = path b"
    and "isNOP T A a = Inr False" and "isNOP T A b = Inr False"
    and "\<not> no_conflict opts"
  shows "transform T A opts a b = transform_update_update T A a b"
  using assms
  by (simp add: transform_def clone_Update CODE_values table_values)

section \<open>The sample leaves and operations\<close>

lemma sample_isNOP:
  "diff_isNOP text_leaf array_leaf (TextOperation t) = seq_isNOP t"
  "diff_isNOP text_leaf array_leaf (ArrayOperation r) = seq_isNOP r"
  by (simp_all add: diff_isNOP_def text_leaf_def array_leaf_def seq_leaf_def)

lemma sample_transform:
  "leaf_transform text_leaf = seq_transform"
  "leaf_transform array_leaf = seq_transform"
  by (simp_all add: text_leaf_def array_leaf_def seq_leaf_def)

lemma update_x_fields:
  "otype (update_x d) = UPDATE" "path (update_x d) = Some [''x'']" "diff (update_x d) = Some d"
  "val (update_x d) = JUndefined"
  by (simp_all add: update_x_def)

section \<open>The hub: what a commit does\<close>

lemma send_all_queue:
  "send_all sockets data h =
     h\<lparr>messageQueue := messageQueue h @
        map (\<lambda>socket. \<lparr>sender = socket, receiver = replace ''-server'' [] socket,
                         payload = data\<rparr>) sockets\<rparr>"
  unfolding send_all_def
  by (induction sockets arbitrary: h) (simp_all add: send_def)

lemma splice_at_end: "splice xs (int (length xs)) = ([], xs)"
  by (simp add: splice_def)

lemma getChangesSinceVersion_current:
  "hub_inv h \<Longrightarrow> getChangesSinceVersion h (doc_version h) = ([], h)"
  by (simp add: getChangesSinceVersion_def hub_inv_def splice_at_end)

lemma commit_stale:
  assumes "hub_inv h" and "doc_version h \<noteq> v"
  shows "commit E h ws change v =
           (case doc_apply E (doc h) (change_clone E change) of
              Inl e \<Rightarrow> Thrown e h
            | Inr d \<Rightarrow>
                Done (h\<lparr>doc := d, changes := changes h @ [change_clone E change],
                        doc_version := doc_version h + 1,
                        messageQueue := messageQueue h @
                          map (\<lambda>socket. \<lparr>sender = socket,
                                 receiver = replace ''-server'' [] socket,
                                 payload = [Str ''update'', Num (doc_version h + 1),
                                            Chg (change_clone E change)]\<rparr>)
                              (filter (\<lambda>client. client \<noteq> ws) (clients h)) @
                          [\<lparr>sender = ws, receiver = replace ''-server'' [] ws,
                            payload = [Str ''commitDone'']\<rparr>]\<rparr>))"
  using assms
  by (simp add: commit_def getChangesSinceVersion_current applyChange_def Let_def
      send_all_queue send_def getCollaboratorSockets_def split: sum.splits)

lemma commit_current:
  assumes "doc_version h = v"
  shows "commit E h ws change v =
           (case doc_apply E (doc h) change of
              Inl e \<Rightarrow> Thrown e h
            | Inr d \<Rightarrow>
                Done (h\<lparr>doc := d, changes := changes h @ [change],
                        doc_version := v + 1,
                        messageQueue := messageQueue h @
                          [\<lparr>sender = ws, receiver = replace ''-server'' [] ws,
                            payload = [Str ''commitDone'', Num (v + 1)]\<rparr>] @
                          map (\<lambda>socket. \<lparr>sender = socket,
                                 receiver = replace ''-server'' [] socket,
                                 payload = [Str ''update'', Chg change, Num (v + 1)]\<rparr>)
                              (filter (\<lambda>client. client \<noteq> ws) (clients h))\<rparr>))"
  using assms
  by (simp add: commit_def applyChange_def Let_def
      send_all_queue send_def getCollaboratorSockets_def split: sum.splits)

lemma onMessage_step:
  assumes "hub_inv h"
  shows "hub_inv (hub_of (onMessage E h ws m)) \<and>
         doc_version h \<le> doc_version (hub_of (onMessage E h ws m)) \<and>
         prefix (changes h) (changes (hub_of (onMessage E h ws m)))"
proof (cases m)
  case (Open documentId version)
  with assms show ?thesis
    by (simp add: onMessage_def hub_of_def hub_open_def send_def hub_inv_def)
next
  case (Commit change version)
  show ?thesis
  proof (cases "doc_version h = version")
    case True
    with assms Commit show ?thesis
      by (simp add: onMessage_def commit_current hub_of_def hub_inv_def split: sum.splits)
  next
    case False
    with assms Commit show ?thesis
      by (simp add: onMessage_def commit_stale hub_of_def split: sum.splits)
        (simp add: hub_inv_def)
  qed
next
  case (Close documentId)
  with assms show ?thesis
    by (simp add: onMessage_def hub_of_def)
qed

lemma run_step:
  "hub_inv h \<Longrightarrow>
   hub_inv (run E h ms) \<and> doc_version h \<le> doc_version (run E h ms) \<and>
   prefix (changes h) (changes (run E h ms))"
proof (induction ms arbitrary: h)
  case Nil
  then show ?case by simp
next
  case (Cons wm ms)
  obtain ws m where wm: "wm = (ws, m)" by (cases wm)
  let ?h = "hub_of (onMessage E h ws m)"
  from onMessage_step [OF Cons.prems, of E ws m]
  have s: "hub_inv ?h" "doc_version h \<le> doc_version ?h" "prefix (changes h) (changes ?h)"
    by simp_all
  from Cons.IH [OF s(1)] s(2,3) show ?case
    unfolding wm by (auto intro: prefix_order.trans order_trans)
qed

lemma run_append: "run E h (ms @ ms') = run E (run E h ms) ms'"
  by (induction ms arbitrary: h) auto

lemma StubHub_inv: "hub_inv (StubHub d cs)"
  by (simp add: StubHub_def hub_inv_def)

section \<open>The sample hub\<close>

lemma replace_server [simp]:
  "replace ''-server'' [] ''a-server'' = ''a''"
  "replace ''-server'' [] ''b-server'' = ''b''"
  by simp_all

lemma sample_env_simps [simp]:
  "doc_apply sample_env d c = Inr (d @ [c])"
  "change_clone sample_env c = c"
  "transformInplace sample_env m c = Inr (m @ ''*'', c @ ''*'')"
  by (simp_all add: sample_env_def)

lemma hub1_value:
  "hub1 = \<lparr>doc = [''c1''], doc_id = ''doc-15'', doc_version = 2, changes = [''c1''],
           clients = [''a-server'', ''b-server''],
           messageQueue =
             [\<lparr>sender = ''a-server'', receiver = ''a'', payload = [Str ''commitDone'', Num 2]\<rparr>,
              \<lparr>sender = ''b-server'', receiver = ''b'',
               payload = [Str ''update'', Chg ''c1'', Num 2]\<rparr>]\<rparr>"
  by (simp add: hub1_def hub0_def StubHub_def onMessage_def commit_current hub_of_def)

section \<open>Applying operations\<close>

lemmas apply_defs = apply_op_def DataObject_set_def DataObject_get_def DataObject_delete_def
  cloneDeep_def diff_apply_def lift_leaf_def

lemma apply_ignores_original [simp]:
  "apply_op T A (a\<lparr>original := x\<rparr>) = apply_op T A a"
  by (rule ext) (simp add: apply_op_def split: option.splits)

lemma apply_type_NOP: "otype a = NOP \<Longrightarrow> apply_op T A a s = Inr s"
  by (simp add: apply_op_def)

lemma wellformed_isNOP:
  "wellformed a \<Longrightarrow> \<exists>n. isNOP T A a = Inr n"
  by (auto simp: wellformed_cases isNOP_def)

lemma isNOP_apply_identity:
  assumes "leaf_NOP_identity T" and "leaf_NOP_identity A"
    and "wellformed a" and "isNOP T A a = Inr True"
  shows "apply_op T A a s = Inr s"
proof (cases "otype a = NOP")
  case True
  then show ?thesis by (rule apply_type_NOP)
next
  case False
  with assms(3,4) obtain p d where u: "otype a = UPDATE" "path a = Some p" "diff a = Some d"
    "diff_isNOP T A d"
    by (auto simp: isNOP_def wellformed_cases split: if_splits)
  from u(4) assms(1,2) have "diff_apply T A d (s p) = Inr (s p)"
    by (cases d) (simp_all add: diff_isNOP_def diff_apply_def lift_leaf_def leaf_NOP_identity_def)
  with u show ?thesis
    by (simp add: apply_op_def DataObject_get_def DataObject_set_def)
qed

text \<open>An operation reads and writes the value at its path only.\<close>

lemma apply_effect:
  assumes "otype a \<noteq> NOP" and "path a = Some p" and "apply_op T A a s = Inr s'"
  shows "s' = s(p := s' p) \<and> (\<forall>s2. s2 p = s p \<longrightarrow> apply_op T A a s2 = Inr (s2(p := s' p)))"
  using assms
  by (cases "otype a")
    (auto simp: apply_defs split: if_splits option.splits sum.splits leafdiff.splits)

lemma apply_other_path:
  assumes "otype a \<noteq> NOP" and "path a = Some p" and "apply_op T A a s = Inr s'"
    and "q \<noteq> p"
  shows "apply_op T A a (s(q := v)) = Inr (s'(q := v))"
proof -
  from apply_effect [OF assms(1-3)]
  have e: "s' = s(p := s' p)" and f: "\<And>s2. s2 p = s p \<Longrightarrow> apply_op T A a s2 = Inr (s2(p := s' p))"
    by auto
  have "apply_op T A a (s(q := v)) = Inr ((s(q := v))(p := s' p))"
    using assms(4) by (intro f) simp
  also have "(s(q := v))(p := s' p) = (s(p := s' p))(q := v)"
    using assms(4) by (simp add: fun_upd_twist)
  also have "\<dots> = s'(q := v)"
    using e by simp
  finally show ?thesis .
qed

section \<open>The sample leaves are invertible\<close>




lemma sample_apply:
  "leaf_apply text_leaf (SeqInsert p zs) (JStr xs) =
     (if p \<le> length xs then Inr (JStr (take p xs @ zs @ drop p xs))
      else Inl ''insert out of range'')"
  "leaf_apply text_leaf SeqNOP v = Inr v"
  "leaf_apply array_leaf SeqNOP v = Inr v"
  by (simp_all add: text_leaf_def array_leaf_def seq_leaf_def)

lemma doc_x_value: "doc_x [''x''] = JStr ''ab''"
  by (simp add: doc_x_def DataObject_set_def)

section \<open>The sample leaves satisfy TP1\<close>

lemma seq_insert_insert:
  assumes "p \<le> length l" and "q \<le> length l" and "p \<le> q"
  shows "take p (take q l @ ys @ drop q l) @ xs @ drop p (take q l @ ys @ drop q l) =
         take (q + length xs) (take p l @ xs @ drop p l) @ ys @
           drop (q + length xs) (take p l @ xs @ drop p l)"
proof -
  obtain n where n: "q = p + n"
    using assms(3) by (auto simp: le_iff_add)
  have lp: "min (length l) p = p"
    using assms(1) by simp
  have 1: "take p (take q l @ ys @ drop q l) = take p l"
    using assms by (simp add: min_def)
  have 2: "drop p (take q l @ ys @ drop q l) = drop p (take q l) @ ys @ drop q l"
    using assms by simp
  have 3: "take (q + length xs) (take p l @ xs @ drop p l) = take p l @ xs @ take n (drop p l)"
    unfolding n by (simp add: lp)
  have 4: "drop (q + length xs) (take p l @ xs @ drop p l) = drop q l"
    unfolding n by (simp add: lp add.commute)
  have 5: "drop p (take q l) = take n (drop p l)"
    unfolding n by (simp add: drop_take)
  show ?thesis
    unfolding 1 2 3 4 5 by simp
qed

lemma seq_TP1:
  assumes "seq_transform a b = Inr (a', b')"
    and "seq_apply a l = Inr la" and "seq_apply b l = Inr lb"
  shows "\<exists>w. seq_apply a' lb = Inr w \<and> seq_apply b' la = Inr w"
proof (cases a)
  case SeqNOP
  with assms show ?thesis by auto
next
  case (SeqDelete p xs)
  with assms show ?thesis by (cases b) auto
next
  case ia: (SeqInsert p xs)
  show ?thesis
  proof (cases b)
    case SeqNOP
    with assms ia show ?thesis by auto
  next
    case (SeqDelete q ys)
    with assms ia show ?thesis by auto
  next
    case ib: (SeqInsert q ys)
    from assms ia ib have p: "p \<le> length l" and q: "q \<le> length l"
      and la: "la = take p l @ xs @ drop p l" and lb: "lb = take q l @ ys @ drop q l"
      by (auto split: if_splits)
    show ?thesis
    proof (cases "p < q")
      case True
      with assms ia ib have t: "a' = SeqInsert p xs" "b' = SeqInsert (q + length xs) ys"
        by auto
      from True p q seq_insert_insert [of p l q ys xs] show ?thesis
        by (simp add: t la lb)
    next
      case False
      with assms ia ib have t: "a' = SeqInsert (p + length ys) xs" "b' = SeqInsert q ys"
        by auto
      from False p q seq_insert_insert [of q l p xs ys] show ?thesis
        by (simp add: t la lb)
    qed
  qed
qed

lemma seq_isNOP_iff: "seq_isNOP d \<longleftrightarrow> d = SeqNOP"
  by (cases d) auto

lemma seq_transform_NOP:
  "seq_transform a b = Inr (a', b') \<Longrightarrow> seq_isNOP a \<or> seq_isNOP b \<Longrightarrow> a' = a \<and> b' = b"
  by (cases a; cases b) auto

lemma seq_transform_not_NOP:
  "seq_transform a b = Inr (a', b') \<Longrightarrow> \<not> seq_isNOP a \<Longrightarrow> \<not> seq_isNOP b \<Longrightarrow>
   \<not> seq_isNOP a' \<and> \<not> seq_isNOP b'"
  by (cases a; cases b) (auto split: if_splits)

lemma seq_leaf_TP1:
  assumes ub: "\<And>xs. unbox (box xs) = Some xs"
  shows "leaf_TP1 (seq_leaf box unbox)"
  unfolding leaf_TP1_def
proof (intro allI impI, elim conjE)
  fix a b a' b' v va vb
  assume t: "leaf_transform (seq_leaf box unbox) a b = Inr (a', b')"
    and a: "leaf_apply (seq_leaf box unbox) a v = Inr va"
    and b: "leaf_apply (seq_leaf box unbox) b v = Inr vb"
  from t have t': "seq_transform a b = Inr (a', b')"
    by (simp add: seq_leaf_def)
  show "\<exists>w. leaf_apply (seq_leaf box unbox) a' vb = Inr w \<and>
            leaf_apply (seq_leaf box unbox) b' va = Inr w"
  proof (cases "seq_isNOP a \<or> seq_isNOP b")
    case True
    with seq_transform_NOP [OF t'] have e: "a' = a" "b' = b" by auto
    from True show ?thesis
    proof
      assume n: "seq_isNOP a"
      with a have "va = v" by (simp add: seq_leaf_def)
      with n b e show ?thesis by (simp add: seq_leaf_def)
    next
      assume n: "seq_isNOP b"
      with b have "vb = v" by (simp add: seq_leaf_def)
      with n a e show ?thesis by (simp add: seq_leaf_def)
    qed
  next
    case False
    then have n: "\<not> seq_isNOP a" "\<not> seq_isNOP b" by auto
    from seq_transform_not_NOP [OF t' n] have n': "\<not> seq_isNOP a'" "\<not> seq_isNOP b'"
      by auto
    from a n(1) obtain l la where l: "unbox v = Some l" "seq_apply a l = Inr la" "va = box la"
      by (auto simp: seq_leaf_def split: option.splits sum.splits)
    from b n(2) l(1) obtain lb where lb: "seq_apply b l = Inr lb" "vb = box lb"
      by (auto simp: seq_leaf_def split: option.splits sum.splits)
    from seq_TP1 [OF t' l(2) lb(1)] obtain w
      where w: "seq_apply a' lb = Inr w" "seq_apply b' la = Inr w"
      by auto
    with n' l(3) lb(2) ub show ?thesis
      by (simp add: seq_leaf_def)
  qed
qed

lemma seq_leaf_NOP_identity: "leaf_NOP_identity (seq_leaf box unbox)"
  by (simp add: leaf_NOP_identity_def seq_leaf_def)

lemma seq_leaf_defined:
  assumes "\<And>xs. box xs \<noteq> JUndefined"
  shows "leaf_defined (seq_leaf box unbox)"
  using assms
  by (auto simp: leaf_defined_def seq_leaf_def split: option.splits sum.splits)

lemma sample_leaves_lawful:
  "leaf_TP1 text_leaf" "leaf_TP1 array_leaf"
  "leaf_NOP_identity text_leaf" "leaf_NOP_identity array_leaf"
  "leaf_defined text_leaf" "leaf_defined array_leaf"
  unfolding text_leaf_def array_leaf_def
  by (simp_all add: seq_leaf_TP1 seq_leaf_NOP_identity seq_leaf_defined)

section \<open>TP1 of the rules\<close>

lemma transform_inplace_same_path:
  assumes "isNOP T A a = Inr False" and "isNOP T A b = Inr False" and "path a = path b"
  shows "transform T A \<lparr>inplace = True, no_conflict = False\<rparr> a b =
           (case transform_table T A (CODE (otype a) OR CODE (otype b)) of
              None \<Rightarrow> Inl (TypeError ''__transform__[...] is not a function'')
            | Some f \<Rightarrow> f a b)"
  using assms by (simp add: transform_def)

lemma transform_inplace_other_path:
  assumes "isNOP T A a = Inr False" and "isNOP T A b = Inr False" and "path a \<noteq> path b"
  shows "transform T A \<lparr>inplace = True, no_conflict = False\<rparr> a b = Inr (a, b)"
  using assms by (simp add: transform_def)

lemma transform_inplace_NOP:
  assumes "isNOP T A a = Inr na" and "isNOP T A b = Inr nb" and "na \<or> nb"
  shows "transform T A \<lparr>inplace = True, no_conflict = False\<rparr> a b = Inr (a, b)"
  using assms by (cases na; cases nb) (simp_all add: transform_def)

lemma TP1_delete_delete:
  assumes "otype a = DELETE" and "otype b = DELETE" and "path a = Some p" and "path b = Some p"
    and "apply_op T A a s = Inr sa" and "apply_op T A b s = Inr sb"
    and "transform_delete_delete a b = Inr (a', b')"
  shows "\<exists>r. apply_op T A a' sb = Inr r \<and> apply_op T A b' sa = Inr r"
  using assms
  by (auto simp: transform_delete_delete_def apply_defs split: if_splits)

lemma TP1_delete_set:
  assumes "otype a = DELETE" and "otype b = SET" and "path a = Some p" and "path b = Some p"
    and "apply_op T A a s = Inr sa" and "apply_op T A b s = Inr sb"
    and "transform_delete_set a b = Inr (a', b')"
  shows "\<exists>r. apply_op T A a' sb = Inr r \<and> apply_op T A b' sa = Inr r"
  using assms
  by (auto simp: transform_delete_set_rule apply_defs split: if_splits)

lemma TP1_set_delete:
  assumes "otype a = SET" and "otype b = DELETE" and "path a = Some p" and "path b = Some p"
    and "val a \<noteq> JUndefined"
    and "apply_op T A a s = Inr sa" and "apply_op T A b s = Inr sb"
    and "transform_delete_set a b = Inr (a', b')"
  shows "\<exists>r. apply_op T A a' sb = Inr r \<and> apply_op T A b' sa = Inr r"
  using assms
  by (auto simp: transform_delete_set_rule apply_defs split: if_splits)

lemma TP1_set_set:
  assumes "otype a = SET" and "otype b = SET" and "path a = Some p" and "path b = Some p"
    and "apply_op T A a s = Inr sa" and "apply_op T A b s = Inr sb"
    and "transform_set_set a b = Inr (a', b')"
  shows "\<exists>r. apply_op T A a' sb = Inr r \<and> apply_op T A b' sa = Inr r"
  using assms
  by (auto simp: transform_set_set_def apply_defs split: if_splits)

lemma update_body_apply:
  assumes "diff b = Some d"
    and "propertyType b = Some (case d of TextOperation _ \<Rightarrow> PString | ArrayOperation _ \<Rightarrow> PArray)"
  shows "(if propertyType b = Some PString
          then (case TextOperation_fromJSON (diff b) of
                  Inl e \<Rightarrow> Inl e
                | Inr t \<Rightarrow> lift_leaf (leaf_apply T t v))
          else (case ArrayOperation_fromJSON (diff b) of
                  Inl e \<Rightarrow> Inl e
                | Inr r \<Rightarrow> lift_leaf (leaf_apply A r v))) = diff_apply T A d v"
  using assms
  by (cases d)
    (simp_all add: TextOperation_fromJSON_def ArrayOperation_fromJSON_def diff_apply_def)

lemma delete_update_body_wellformed:
  assumes "diff b = Some d"
    and "propertyType b = Some (case d of TextOperation _ \<Rightarrow> PString | ArrayOperation _ \<Rightarrow> PArray)"
  shows "delete_update_body T A flipped a b =
           (case diff_apply T A d (val a) of
              Inl e \<Rightarrow> Inl e
            | Inr v \<Rightarrow>
                if \<not> flipped then Inr (a\<lparr>otype := NOP\<rparr>, b\<lparr>otype := CREATE, val := v\<rparr>)
                else Inr (a\<lparr>val := v\<rparr>, b\<lparr>otype := NOP\<rparr>))"
  unfolding delete_update_body_def update_body_apply [OF assms] ..

lemma diff_defined:
  assumes "leaf_defined T" and "leaf_defined A"
    and "\<not> diff_isNOP T A d" and "diff_apply T A d v = Inr v'"
  shows "v' \<noteq> JUndefined"
proof (cases d)
  case (TextOperation t)
  with assms(3,4) have "leaf_apply T t v = Inr v'" "\<not> leaf_isNOP T t"
    by (simp_all add: diff_apply_def diff_isNOP_def lift_leaf_def split: sum.splits)
  with assms(1) show ?thesis
    unfolding leaf_defined_def by blast
next
  case (ArrayOperation r)
  with assms(3,4) have "leaf_apply A r v = Inr v'" "\<not> leaf_isNOP A r"
    by (simp_all add: diff_apply_def diff_isNOP_def lift_leaf_def split: sum.splits)
  with assms(2) show ?thesis
    unfolding leaf_defined_def by blast
qed

lemma apply_update:
  assumes "otype b = UPDATE" and "path b = Some p" and "diff b = Some d"
  shows "apply_op T A b s =
           (case diff_apply T A d (s p) of Inl e \<Rightarrow> Inl e | Inr v \<Rightarrow> Inr (s(p := v)))"
  using assms by (simp add: apply_op_def DataObject_get_def DataObject_set_def split: sum.splits)

lemma TP1_delete_update:
  assumes "otype a = DELETE" and "otype b = UPDATE" and "path a = Some p" and "path b = Some p"
    and "diff b = Some d"
    and "propertyType b = Some (case d of TextOperation _ \<Rightarrow> PString | ArrayOperation _ \<Rightarrow> PArray)"
    and "val a = s p"
    and "apply_op T A a s = Inr sa" and "apply_op T A b s = Inr sb"
    and "transform_delete_update T A a b = Inr (a', b')"
  shows "\<exists>r. apply_op T A a' sb = Inr r \<and> apply_op T A b' sa = Inr r"
proof -
  from assms(9) obtain vb where vb: "diff_apply T A d (s p) = Inr vb" "sb = s(p := vb)"
    by (auto simp: apply_update [OF assms(2,4,5)] split: sum.splits)
  from assms(1,10) vb(1) assms(7)
  have t: "a' = a\<lparr>otype := NOP\<rparr>" "b' = b\<lparr>otype := CREATE, val := vb\<rparr>"
    by (simp_all add: transform_delete_update_def delete_update_body_wellformed [OF assms(5,6)])
  from assms(1,3,8) have sa: "sa = s(p := JUndefined)"
    by (auto simp: apply_defs split: if_splits)
  show ?thesis
    using assms(4) by (simp add: t sa vb(2) apply_defs)
qed

lemma TP1_update_delete:
  assumes "leaf_defined T" and "leaf_defined A"
    and "otype a = UPDATE" and "otype b = DELETE" and "path a = Some p" and "path b = Some p"
    and "diff a = Some d" and "\<not> diff_isNOP T A d"
    and "propertyType a = Some (case d of TextOperation _ \<Rightarrow> PString | ArrayOperation _ \<Rightarrow> PArray)"
    and "apply_op T A a s = Inr sa" and "apply_op T A b s = Inr sb"
    and "transform_delete_update T A a b = Inr (a', b')"
  shows "\<exists>r. apply_op T A a' sb = Inr r \<and> apply_op T A b' sa = Inr r"
proof -
  from assms(10) obtain va where va: "diff_apply T A d (s p) = Inr va" "sa = s(p := va)"
    by (auto simp: apply_update [OF assms(3,5,7)] split: sum.splits)
  from diff_defined [OF assms(1,2,8) va(1)] have d: "va \<noteq> JUndefined" .
  from assms(3,4,12) obtain v where t: "a' = a\<lparr>otype := NOP\<rparr>" "b' = b\<lparr>val := v\<rparr>"
    by (auto simp: transform_delete_update_def delete_update_body_wellformed [OF assms(7,9)]
        split: sum.splits)
  from assms(4,6,11) have sb: "sb = s(p := JUndefined)"
    by (auto simp: apply_defs split: if_splits)
  show ?thesis
    using assms(4,6) d by (simp add: t sb va(2) apply_defs)
qed

lemma TP1_update_update:
  assumes "leaf_TP1 T" and "leaf_TP1 A"
    and "otype a = UPDATE" and "otype b = UPDATE" and "path a = Some p" and "path b = Some p"
    and "diff a = Some da" and "diff b = Some db"
    and "propertyType b = Some (case db of TextOperation _ \<Rightarrow> PString | ArrayOperation _ \<Rightarrow> PArray)"
    and "apply_op T A a s = Inr sa" and "apply_op T A b s = Inr sb"
    and "transform_update_update T A a b = Inr (a', b')"
  shows "\<exists>r. apply_op T A a' sb = Inr r \<and> apply_op T A b' sa = Inr r"
proof -
  from assms(10) obtain va where va: "diff_apply T A da (s p) = Inr va" "sa = s(p := va)"
    by (auto simp: apply_update [OF assms(3,5,7)] split: sum.splits)
  from assms(11) obtain vb where vb: "diff_apply T A db (s p) = Inr vb" "sb = s(p := vb)"
    by (auto simp: apply_update [OF assms(4,6,8)] split: sum.splits)
  have "\<exists>da' db' w. a' = a\<lparr>diff := Some da'\<rparr> \<and> b' = b\<lparr>diff := Some db'\<rparr> \<and>
          diff_apply T A da' vb = Inr w \<and> diff_apply T A db' va = Inr w"
  proof (cases da)
    case ta: (TextOperation ta)
    show ?thesis
    proof (cases db)
      case tb: (TextOperation tb)
      from assms(12) obtain ta' tb' where t: "leaf_transform T ta tb = Inr (ta', tb')"
        "a' = a\<lparr>diff := Some (TextOperation ta')\<rparr>" "b' = b\<lparr>diff := Some (TextOperation tb')\<rparr>"
        using assms(7,8,9) ta tb
        by (auto simp: transform_update_update_text split: sum.splits)
      from va(1) vb(1) ta tb have "leaf_apply T ta (s p) = Inr va" "leaf_apply T tb (s p) = Inr vb"
        by (simp_all add: diff_apply_def lift_leaf_def split: sum.splits)
      with assms(1) t(1) obtain w where "leaf_apply T ta' vb = Inr w" "leaf_apply T tb' va = Inr w"
        unfolding leaf_TP1_def by blast
      then have "diff_apply T A (TextOperation ta') vb = Inr w"
        "diff_apply T A (TextOperation tb') va = Inr w"
        by (simp_all add: diff_apply_def lift_leaf_def)
      with t(2,3) show ?thesis
        by blast
    next
      case rb: (ArrayOperation rb)
      from transform_update_update_mismatch [of a ta b rb, where T = T and A = A] assms(7,8,9,12) ta rb
      show ?thesis by auto
    qed
  next
    case ra: (ArrayOperation ra)
    show ?thesis
    proof (cases db)
      case tb: (TextOperation tb)
      from transform_update_update_mismatch [of a _ b _ ra tb, where T = T and A = A]
        assms(7,8,9,12) ra tb
      show ?thesis by auto
    next
      case rb: (ArrayOperation rb)
      from assms(12) obtain ra' rb' where t: "leaf_transform A ra rb = Inr (ra', rb')"
        "a' = a\<lparr>diff := Some (ArrayOperation ra')\<rparr>" "b' = b\<lparr>diff := Some (ArrayOperation rb')\<rparr>"
        using assms(7,8,9) ra rb
        by (auto simp: transform_update_update_array split: sum.splits)
      from va(1) vb(1) ra rb have "leaf_apply A ra (s p) = Inr va" "leaf_apply A rb (s p) = Inr vb"
        by (simp_all add: diff_apply_def lift_leaf_def split: sum.splits)
      with assms(2) t(1) obtain w where "leaf_apply A ra' vb = Inr w" "leaf_apply A rb' va = Inr w"
        unfolding leaf_TP1_def by blast
      then have "diff_apply T A (ArrayOperation ra') vb = Inr w"
        "diff_apply T A (ArrayOperation rb') va = Inr w"
        by (simp_all add: diff_apply_def lift_leaf_def)
      with t(2,3) show ?thesis
        by blast
    qed
  qed
  then obtain da' db' w where t: "a' = a\<lparr>diff := Some da'\<rparr>" "b' = b\<lparr>diff := Some db'\<rparr>"
    "diff_apply T A da' vb = Inr w" "diff_apply T A db' va = Inr w"
    by blast
  show ?thesis
    using assms(3-6) t(3,4)
    by (simp add: t(1,2) va(2) vb(2) apply_op_def DataObject_get_def DataObject_set_def)
qed

lemma TP1_same_path:
  assumes L: "leaf_TP1 T" "leaf_TP1 A" "leaf_defined T" "leaf_defined A"
    and wf: "wellformed a" "wellformed b"
    and n: "isNOP T A a = Inr False" "isNOP T A b = Inr False"
    and p: "path a = path b"
    and ap: "apply_op T A a s = Inr sa" "apply_op T A b s = Inr sb"
    and dr: "delete_records_state a s"
    and sv: "otype a = SET \<longrightarrow> val a \<noteq> JUndefined"
    and tr: "transform T A \<lparr>inplace = True, no_conflict = False\<rparr> a b = Inr (a', b')"
  shows "\<exists>r. apply_op T A a' sb = Inr r \<and> apply_op T A b' sa = Inr r"
proof -
  from n have nn: "otype a \<noteq> NOP" "otype b \<noteq> NOP"
    by (auto simp: isNOP_def)
  with wf p obtain q where q: "path a = Some q" "path b = Some q"
    by (auto simp: wellformed_cases)
  note t = tr [unfolded transform_inplace_same_path [OF n p]]
  show ?thesis
  proof (cases "otype a")
    case NOP
    with nn show ?thesis by simp
  next
    case CREATE
    with t nn show ?thesis
      by (cases "otype b")
        (simp_all add: CODE_values table_values transform_create_create_def
          transform_delete_create_def transform_create_update_def transform_create_set_def)
  next
    case DELETE
    show ?thesis
    proof (cases "otype b")
      case NOP
      with nn show ?thesis by simp
    next
      case CREATE
      with t DELETE show ?thesis
        by (simp add: CODE_values table_values transform_delete_create_def)
    next
      case db: DELETE
      with t DELETE have "transform_delete_delete a b = Inr (a', b')"
        by (simp add: CODE_values table_values)
      from TP1_delete_delete [OF DELETE db q ap this] show ?thesis .
    next
      case UPDATE
      with wf(2) obtain d where d: "diff b = Some d"
        "propertyType b = Some (case d of TextOperation _ \<Rightarrow> PString | ArrayOperation _ \<Rightarrow> PArray)"
        by (auto simp: wellformed_cases)
      from dr DELETE q have v: "val a = s q"
        by (simp add: delete_records_state_def DataObject_get_def)
      from t DELETE UPDATE have "transform_delete_update T A a b = Inr (a', b')"
        by (simp add: CODE_values table_values)
      from TP1_delete_update [OF DELETE UPDATE q d v ap this] show ?thesis .
    next
      case SET
      with t DELETE have "transform_delete_set a b = Inr (a', b')"
        by (simp add: CODE_values table_values)
      from TP1_delete_set [OF DELETE SET q ap this] show ?thesis .
    qed
  next
    case UPDATE
    with wf(1) obtain da where da: "diff a = Some da"
      "propertyType a = Some (case da of TextOperation _ \<Rightarrow> PString | ArrayOperation _ \<Rightarrow> PArray)"
      by (auto simp: wellformed_cases)
    from n(1) UPDATE da(1) have na: "\<not> diff_isNOP T A da"
      by (simp add: isNOP_def)
    show ?thesis
    proof (cases "otype b")
      case NOP
      with nn show ?thesis by simp
    next
      case CREATE
      with t UPDATE show ?thesis
        by (simp add: CODE_values table_values transform_create_update_def)
    next
      case DELETE
      with t UPDATE have "transform_delete_update T A a b = Inr (a', b')"
        by (simp add: CODE_values table_values)
      from TP1_update_delete [OF L(3,4) UPDATE DELETE q da(1) na da(2) ap this] show ?thesis .
    next
      case ub: UPDATE
      with wf(2) obtain db where db: "diff b = Some db"
        "propertyType b = Some (case db of TextOperation _ \<Rightarrow> PString | ArrayOperation _ \<Rightarrow> PArray)"
        by (auto simp: wellformed_cases)
      from t UPDATE ub have "transform_update_update T A a b = Inr (a', b')"
        by (simp add: CODE_values table_values)
      from TP1_update_update [OF L(1,2) UPDATE ub q da(1) db ap this] show ?thesis .
    next
      case SET
      with t UPDATE show ?thesis
        by (simp add: CODE_values table_values transform_update_set_def)
    qed
  next
    case SET
    show ?thesis
    proof (cases "otype b")
      case NOP
      with nn show ?thesis by simp
    next
      case CREATE
      with t SET show ?thesis
        by (simp add: CODE_values table_values transform_create_set_def)
    next
      case DELETE
      with t SET have "transform_delete_set a b = Inr (a', b')"
        by (simp add: CODE_values table_values)
      from sv SET have "val a \<noteq> JUndefined" by simp
      from TP1_set_delete [OF SET DELETE q this ap \<open>transform_delete_set a b = Inr (a', b')\<close>]
      show ?thesis .
    next
      case UPDATE
      with t SET show ?thesis
        by (simp add: CODE_values table_values transform_update_set_def)
    next
      case sb: SET
      with t SET have "transform_set_set a b = Inr (a', b')"
        by (simp add: CODE_values table_values)
      from TP1_set_set [OF SET sb q ap this] show ?thesis .
    qed
  qed
qed

lemma TP1_other_path:
  assumes wf: "wellformed a" "wellformed b"
    and n: "isNOP T A a = Inr False" "isNOP T A b = Inr False"
    and p: "path a \<noteq> path b"
    and ap: "apply_op T A a s = Inr sa" "apply_op T A b s = Inr sb"
  shows "\<exists>r. apply_op T A a sb = Inr r \<and> apply_op T A b sa = Inr r"
proof -
  from n have nn: "otype a \<noteq> NOP" "otype b \<noteq> NOP"
    by (auto simp: isNOP_def)
  with wf p obtain pa pb where q: "path a = Some pa" "path b = Some pb" "pa \<noteq> pb"
    by (auto simp: wellformed_cases)
  from apply_effect [OF nn(1) q(1) ap(1)] have ea: "sa = s(pa := sa pa)" by simp
  from apply_effect [OF nn(2) q(2) ap(2)] have eb: "sb = s(pb := sb pb)" by simp
  from apply_other_path [OF nn(1) q(1) ap(1), of pb "sb pb"] q(3) eb
  have 1: "apply_op T A a sb = Inr (sa(pb := sb pb))" by simp
  from apply_other_path [OF nn(2) q(2) ap(2), of pa "sa pa"] q(3) ea
  have 2: "apply_op T A b sa = Inr (sb(pa := sa pa))" by simp
  have "sa(pb := sb pb) = sb(pa := sa pa)"
    by (subst ea, subst eb) (simp add: fun_upd_twist [OF q(3)])
  with 1 2 show ?thesis by simp
qed

lemma TP1_inplace:
  assumes L: "leaf_TP1 T" "leaf_TP1 A" "leaf_NOP_identity T" "leaf_NOP_identity A"
      "leaf_defined T" "leaf_defined A"
    and wf: "wellformed a" "wellformed b"
    and ap: "apply_op T A a s = Inr sa" "apply_op T A b s = Inr sb"
    and dr: "delete_records_state a s"
    and sv: "otype a = SET \<longrightarrow> val a \<noteq> JUndefined"
    and tr: "transform T A \<lparr>inplace = True, no_conflict = False\<rparr> a b = Inr (a', b')"
  shows "\<exists>r. apply_op T A a' sb = Inr r \<and> apply_op T A b' sa = Inr r"
proof -
  from wellformed_isNOP [OF wf(1)] wellformed_isNOP [OF wf(2)]
  obtain na nb where n: "isNOP T A a = Inr na" "isNOP T A b = Inr nb"
    by blast
  show ?thesis
  proof (cases "na \<or> nb")
    case True
    from tr transform_inplace_NOP [OF n True] have e: "a' = a" "b' = b"
      by simp_all
    from True show ?thesis
    proof
      assume na
      with n(1) have "isNOP T A a = Inr True" by simp
      from isNOP_apply_identity [OF L(3,4) wf(1) this] ap(1)
      have "sa = s" "apply_op T A a sb = Inr sb" by simp_all
      with ap(2) e show ?thesis by simp
    next
      assume nb
      with n(2) have "isNOP T A b = Inr True" by simp
      from isNOP_apply_identity [OF L(3,4) wf(2) this] ap(2)
      have "sb = s" "apply_op T A b sa = Inr sa" by simp_all
      with ap(1) e show ?thesis by simp
    qed
  next
    case False
    with n have n': "isNOP T A a = Inr False" "isNOP T A b = Inr False"
      by simp_all
    show ?thesis
    proof (cases "path a = path b")
      case True
      from TP1_same_path [OF L(1,2,5,6) wf n' True ap dr sv tr] show ?thesis .
    next
      case False
      from tr transform_inplace_other_path [OF n' False] have e: "a' = a" "b' = b"
        by simp_all
      from TP1_other_path [OF wf n' False ap] e show ?thesis by simp
    qed
  qed
qed

lemma transform_inplace_options:
  assumes "inplace opts" and "transform T A opts a b = Inr r"
  shows "transform T A \<lparr>inplace = True, no_conflict = False\<rparr> a b = Inr r"
  using assms by (simp add: transform_def split: if_splits)

lemma transform_cloning_options:
  assumes "\<not> inplace opts" and "transform T A opts a b = Inr r"
  shows "\<exists>a1 b1. clone a = Inr a1 \<and> clone b = Inr b1 \<and>
           transform T A \<lparr>inplace = True, no_conflict = False\<rparr> a1 b1 = Inr r"
  using assms by (auto simp: transform_def split: if_splits sum.splits)

lemma clone_kept:
  assumes "wellformed a" and "otype a = SET \<longrightarrow> truthy (val a)"
  shows "clone a = Inr (a\<lparr>original := JUndefined\<rparr>)" and "wellformed (a\<lparr>original := JUndefined\<rparr>)"
proof -
  from assms have "(if truthy (val a) then val a else JUndefined) = val a"
    by (auto simp: wellformed_cases)
  with clone_wellformed [OF assms(1)] show "clone a = Inr (a\<lparr>original := JUndefined\<rparr>)"
    by simp
  from assms(1) show "wellformed (a\<lparr>original := JUndefined\<rparr>)"
    by (auto simp: wellformed_cases)
qed

section \<open>Evaluating the sample operations\<close>

lemma doc_x_updates:
  "empty_doc(p := JUndefined) = empty_doc"
  "doc_x([''x''] := v) = empty_doc([''x''] := v)"
  by (auto simp: doc_x_def empty_doc_def DataObject_set_def)

lemmas eval_defs = transform_def default_options_def clone_def ObjectOperation_def
  cloneDeep_def isNOP_def diff_isNOP_def text_leaf_def array_leaf_def seq_leaf_def CODE_def
  transform_table_def transform_delete_update_def delete_update_body_def
  transform_delete_set_def delete_set_body_def transform_update_update_def
  transform_delete_delete_def transform_set_set_def
  TextOperation_fromJSON_def ArrayOperation_fromJSON_def lift_leaf_def
  create_x_def delete_x_def delete_x_stale_def set_x_def set_x_zero_def update_x_def

lemma sample_diff_apply:
  "diff_apply text_leaf array_leaf (TextOperation (SeqInsert p zs)) (JStr xs) =
     (if p \<le> length xs then Inr (JStr (take p xs @ zs @ drop p xs))
      else Inl (Error ''insert out of range''))"
  by (simp add: diff_apply_def lift_leaf_def sample_apply)

section \<open>The claims\<close>

text \<open>
  C1. TP1 of \<open>transform\<close>. Assume that the leaf transforms satisfy TP1, that a leaf NOP
  applies as the identity and that no other leaf operation gives \<open>undefined\<close>. Let \<open>a\<close> and
  \<open>b\<close> be well formed and both apply to \<open>s\<close>; let \<open>a\<close>, if it is a delete, record in \<open>val\<close> the
  value \<open>s\<close> holds at its path; and let the value of every set among them be kept (a value,
  and truthy unless the operations are transformed in place). If \<open>transform\<close> returns
  \<open>(a', b')\<close>, then \<open>a'\<close> applies after \<open>b\<close> and \<open>b'\<close> after \<open>a\<close>, with the same result.
\<close>

theorem transform_TP1:
  assumes "leaf_TP1 T" and "leaf_TP1 A"
    and "leaf_NOP_identity T" and "leaf_NOP_identity A"
    and "leaf_defined T" and "leaf_defined A"
    and "wellformed a" and "wellformed b"
    and "apply_op T A a s = Inr sa" and "apply_op T A b s = Inr sb"
    and "delete_records_state a s"
    and "set_val_kept opts a" and "set_val_kept opts b"
    and "transform T A opts a b = Inr (a', b')"
  shows "\<exists>r. apply_op T A a' sb = Inr r \<and> apply_op T A b' sa = Inr r"
proof (cases "inplace opts")
  case True
  from assms(12) have sv: "otype a = SET \<longrightarrow> val a \<noteq> JUndefined"
    by (simp add: set_val_kept_def split: if_splits)
  from TP1_inplace [OF assms(1-11) sv transform_inplace_options [OF True assms(14)]]
  show ?thesis .
next
  case False
  with assms(12,13) have k: "otype a = SET \<longrightarrow> truthy (val a)" "otype b = SET \<longrightarrow> truthy (val b)"
    by (simp_all add: set_val_kept_def split: if_splits)
  let ?a = "a\<lparr>original := JUndefined\<rparr>" and ?b = "b\<lparr>original := JUndefined\<rparr>"
  from transform_cloning_options [OF False assms(14)]
    clone_kept(1) [OF assms(7) k(1)] clone_kept(1) [OF assms(8) k(2)]
  have t: "transform T A \<lparr>inplace = True, no_conflict = False\<rparr> ?a ?b = Inr (a', b')"
    by auto
  have ap: "apply_op T A ?a s = Inr sa" "apply_op T A ?b s = Inr sb"
    using assms(9,10) by simp_all
  have dr: "delete_records_state ?a s"
    using assms(11) by (simp add: delete_records_state_def split: option.splits)
  have sv: "otype ?a = SET \<longrightarrow> val ?a \<noteq> JUndefined"
    using assms(12) by (simp add: set_val_kept_def split: if_splits)
  from TP1_inplace [OF assms(1-6) clone_kept(2) [OF assms(7) k(1)]
      clone_kept(2) [OF assms(8) k(2)] ap dr sv t]
  show ?thesis .
qed

theorem transform_TP1_witness:
  "transform text_leaf array_leaf default_options delete_x
       (update_x (TextOperation (SeqInsert 2 ''c'')))
     = Inr (delete_x\<lparr>otype := NOP\<rparr>,
            (update_x (TextOperation (SeqInsert 2 ''c'')))\<lparr>otype := CREATE, val := JStr ''abc''\<rparr>) \<and>
   (\<exists>r. apply_op text_leaf array_leaf (delete_x\<lparr>otype := NOP\<rparr>)
            (empty_doc([''x''] := JStr ''abc'')) = Inr r \<and>
        apply_op text_leaf array_leaf
            ((update_x (TextOperation (SeqInsert 2 ''c'')))\<lparr>otype := CREATE, val := JStr ''abc''\<rparr>)
            empty_doc = Inr r)"
proof -
  let ?b = "update_x (TextOperation (SeqInsert 2 ''c''))"
  have a: "apply_op text_leaf array_leaf delete_x doc_x = Inr empty_doc"
    by (simp add: apply_defs delete_x_def doc_x_value doc_x_updates)
  have b: "apply_op text_leaf array_leaf ?b doc_x = Inr (empty_doc([''x''] := JStr ''abc''))"
    by (simp add: apply_update update_x_fields doc_x_value sample_diff_apply doc_x_updates)
  have d: "delete_records_state delete_x doc_x"
    by (simp add: delete_records_state_def delete_x_def DataObject_get_def doc_x_value)
  have k: "set_val_kept default_options delete_x" "set_val_kept default_options ?b"
    by (simp_all add: set_val_kept_def delete_x_def update_x_fields)
  have t: "transform text_leaf array_leaf default_options delete_x ?b
     = Inr (delete_x\<lparr>otype := NOP\<rparr>, ?b\<lparr>otype := CREATE, val := JStr ''abc''\<rparr>)"
    by (simp add: eval_defs)
  from transform_TP1 [OF sample_leaves_lawful samples_wellformed(2) samples_wellformed(5)
      a b d k t] t
  show ?thesis by simp
qed

text \<open>
  The claim as stated, for every state on which both operations apply, fails for a delete
  whose recorded value is not the one the state holds: \<open>apply\<close> does not compare them,
  and rule D-U builds the create of the updated value from the value the delete recorded.
\<close>

theorem stale_delete_breaks_TP1:
  "leaf_TP1 text_leaf \<and> leaf_TP1 array_leaf \<and>
   wellformed delete_x_stale \<and> wellformed (update_x (TextOperation (SeqInsert 0 ''!''))) \<and>
   apply_op text_leaf array_leaf delete_x_stale doc_x = Inr empty_doc \<and>
   apply_op text_leaf array_leaf (update_x (TextOperation (SeqInsert 0 ''!''))) doc_x
     = Inr (empty_doc([''x''] := JStr ''!ab'')) \<and>
   transform text_leaf array_leaf default_options delete_x_stale
       (update_x (TextOperation (SeqInsert 0 ''!'')))
     = Inr (delete_x_stale\<lparr>otype := NOP\<rparr>,
            (update_x (TextOperation (SeqInsert 0 ''!'')))\<lparr>otype := CREATE, val := JStr ''!zz''\<rparr>) \<and>
   apply_op text_leaf array_leaf (delete_x_stale\<lparr>otype := NOP\<rparr>)
       (empty_doc([''x''] := JStr ''!ab''))
     = Inr (empty_doc([''x''] := JStr ''!ab'')) \<and>
   apply_op text_leaf array_leaf
       ((update_x (TextOperation (SeqInsert 0 ''!'')))\<lparr>otype := CREATE, val := JStr ''!zz''\<rparr>)
       empty_doc
     = Inr (empty_doc([''x''] := JStr ''!zz'')) \<and>
   empty_doc([''x''] := JStr ''!ab'') \<noteq> empty_doc([''x''] := JStr ''!zz'')"
proof -
  let ?b = "update_x (TextOperation (SeqInsert 0 ''!''))"
  have w: "wellformed delete_x_stale"
    by (simp add: wellformed_def ObjectOperation_def delete_x_stale_def)
  have a: "apply_op text_leaf array_leaf delete_x_stale doc_x = Inr empty_doc"
    by (simp add: apply_defs delete_x_stale_def doc_x_value doc_x_updates)
  have b: "apply_op text_leaf array_leaf ?b doc_x = Inr (empty_doc([''x''] := JStr ''!ab''))"
    by (simp add: apply_update update_x_fields doc_x_value sample_diff_apply doc_x_updates)
  have t: "transform text_leaf array_leaf default_options delete_x_stale ?b
     = Inr (delete_x_stale\<lparr>otype := NOP\<rparr>, ?b\<lparr>otype := CREATE, val := JStr ''!zz''\<rparr>)"
    by (simp add: eval_defs)
  have a': "apply_op text_leaf array_leaf (delete_x_stale\<lparr>otype := NOP\<rparr>)
       (empty_doc([''x''] := JStr ''!ab'')) = Inr (empty_doc([''x''] := JStr ''!ab''))"
    by (simp add: apply_op_def)
  have b': "apply_op text_leaf array_leaf (?b\<lparr>otype := CREATE, val := JStr ''!zz''\<rparr>) empty_doc
     = Inr (empty_doc([''x''] := JStr ''!zz''))"
    by (simp add: apply_defs update_x_fields)
  have "(empty_doc([''x''] := JStr ''!ab'')) [''x''] \<noteq> (empty_doc([''x''] := JStr ''!zz'')) [''x'']"
    by simp
  then have n: "empty_doc([''x''] := JStr ''!ab'') \<noteq> empty_doc([''x''] := JStr ''!zz'')"
    by metis
  from sample_leaves_lawful(1,2) w samples_wellformed(5) a b t a' b' n show ?thesis
    by blast
qed




text \<open>
  C3. A commit at a version below that of the hub. The hub is at version 2 with the log
  \<open>[c1]\<close>, and the second client commits \<open>c2\<close> at version 1. The hub asks for the changes
  since its own version, not since that of the client, and gets none: nothing is
  transformed (the sample transform would mark both changes with a star), \<open>c2\<close> is
  applied as it came, and the committing socket is sent \<open>['commitDone']\<close> alone, with
  neither the version nor the changes. Asked for the changes since version 1,
  \<open>getChangesSinceVersion\<close> removes them from the log.
\<close>

theorem commit_stale_version_not_rebased:
  "doc_version hub1 = 2 \<and> changes hub1 = [''c1''] \<and>
   commit sample_env hub1 ''b-server'' ''c2'' 1 =
     Done (hub1\<lparr>doc := [''c1'', ''c2''], changes := [''c1'', ''c2''], doc_version := 3,
                messageQueue := messageQueue hub1 @
                  [\<lparr>sender = ''a-server'', receiver = ''a'',
                    payload = [Str ''update'', Num 3, Chg ''c2'']\<rparr>,
                   \<lparr>sender = ''b-server'', receiver = ''b'', payload = [Str ''commitDone'']\<rparr>]\<rparr>) \<and>
   getChangesSinceVersion hub1 (doc_version hub1) = ([], hub1) \<and>
   getChangesSinceVersion hub1 1 = ([''c1''], hub1\<lparr>changes := []\<rparr>) \<and>
   transform_changes sample_env [] [''c1''] ''c2'' = Inr ([''c1*''], ''c2*'')"
proof -
  have i: "hub_inv hub1" and n: "doc_version hub1 \<noteq> 1"
    by (simp_all add: hub1_value hub_inv_def)
  have g: "getChangesSinceVersion hub1 1 = ([''c1''], hub1\<lparr>changes := []\<rparr>)"
    by (simp add: hub1_value getChangesSinceVersion_def splice_def)
  show ?thesis
    using g getChangesSinceVersion_current [OF i]
    by (simp add: commit_stale [OF i n]) (simp add: hub1_value)
qed

text \<open>
  C4. After any sequence of open, commit and close messages handled by a new hub, the
  version is one more than the length of the change log; and along any further messages
  the version does not decrease and the log only grows at its end: the log before is a
  prefix of the log after, so that no change appended to it is ever removed.
\<close>

theorem hub_log_invariant:
  "doc_version (run E (StubHub d cs) ms) = 1 + int (length (changes (run E (StubHub d cs) ms))) \<and>
   doc_version (run E (StubHub d cs) ms) \<le> doc_version (run E (StubHub d cs) (ms @ ms')) \<and>
   prefix (changes (run E (StubHub d cs) ms)) (changes (run E (StubHub d cs) (ms @ ms')))"
proof -
  have i: "hub_inv (run E (StubHub d cs) ms)"
    by (rule run_step [THEN conjunct1]) (rule StubHub_inv)
  from run_step [OF i, of E ms'] i show ?thesis
    by (simp add: run_append hub_inv_def)
qed

theorem hub_log_invariant_witness:
  "doc_version (run sample_env hub0
       [(''a-server'', Open ''doc-15'' 1), (''a-server'', Commit ''c1'' 1),
        (''b-server'', Commit ''c2'' 1), (''b-server'', Close ''doc-15'')]) = 3 \<and>
   changes (run sample_env hub0
       [(''a-server'', Open ''doc-15'' 1), (''a-server'', Commit ''c1'' 1),
        (''b-server'', Commit ''c2'' 1), (''b-server'', Close ''doc-15'')]) = [''c1'', ''c2''] \<and>
   prefix [''c1'', ''c2''] (changes (run sample_env hub0
       ([(''a-server'', Open ''doc-15'' 1), (''a-server'', Commit ''c1'' 1),
         (''b-server'', Commit ''c2'' 1), (''b-server'', Close ''doc-15'')] @
        [(''a-server'', Commit ''c3'' 3)])))"
proof -
  have c: "changes (run sample_env hub0
       [(''a-server'', Open ''doc-15'' 1), (''a-server'', Commit ''c1'' 1),
        (''b-server'', Commit ''c2'' 1), (''b-server'', Close ''doc-15'')]) = [''c1'', ''c2'']"
    by (simp add: hub0_def StubHub_def onMessage_def hub_open_def send_def commit_current
        commit_stale hub_inv_def hub_of_def)
  from hub_log_invariant [of sample_env "[]" "[''a-server'', ''b-server'']"
       "[(''a-server'', Open ''doc-15'' 1), (''a-server'', Commit ''c1'' 1),
        (''b-server'', Commit ''c2'' 1), (''b-server'', Close ''doc-15'')]"
       "[(''a-server'', Commit ''c3'' 3)]"] c
  show ?thesis
    by (simp add: hub0_def)
qed

text \<open>
  C5. The fast path, at a new hub with two sockets when the first commits \<open>c1\<close> at
  version 1. The hub stores the new document, appends the change to the log, increments
  the version to 2 and sends \<open>['commitDone', 2]\<close> to the committing socket; but the update
  it sends to the other socket is \<open>['update', c1, 2]\<close>, the change followed by the new
  version, and not the new version followed by the change. The other branch of \<open>commit\<close>,
  taken at the next commit of a stale version, sends \<open>['update', 3, c2]\<close>, the version
  first.
\<close>

theorem fast_path_update_payload_order:
  "commit sample_env hub0 ''a-server'' ''c1'' 1 =
     Done \<lparr>doc = [''c1''], doc_id = ''doc-15'', doc_version = 2, changes = [''c1''],
           clients = [''a-server'', ''b-server''],
           messageQueue =
             [\<lparr>sender = ''a-server'', receiver = ''a'', payload = [Str ''commitDone'', Num 2]\<rparr>,
              \<lparr>sender = ''b-server'', receiver = ''b'',
               payload = [Str ''update'', Chg ''c1'', Num 2]\<rparr>]\<rparr> \<and>
   [Str ''update'', Chg ''c1'', Num 2] \<noteq> [Str ''update'', Num 2, Chg (''c1'' :: string)] \<and>
   messageQueue (hub_of (commit sample_env hub1 ''b-server'' ''c2'' 1)) =
     messageQueue hub1 @
       [\<lparr>sender = ''a-server'', receiver = ''a'', payload = [Str ''update'', Num 3, Chg ''c2'']\<rparr>,
        \<lparr>sender = ''b-server'', receiver = ''b'', payload = [Str ''commitDone'']\<rparr>]"
proof -
  have i: "hub_inv hub1" and n: "doc_version hub1 \<noteq> 1"
    by (simp_all add: hub1_value hub_inv_def)
  have f: "commit sample_env hub0 ''a-server'' ''c1'' 1 =
     Done \<lparr>doc = [''c1''], doc_id = ''doc-15'', doc_version = 2, changes = [''c1''],
           clients = [''a-server'', ''b-server''],
           messageQueue =
             [\<lparr>sender = ''a-server'', receiver = ''a'', payload = [Str ''commitDone'', Num 2]\<rparr>,
              \<lparr>sender = ''b-server'', receiver = ''b'',
               payload = [Str ''update'', Chg ''c1'', Num 2]\<rparr>]\<rparr>"
    by (simp add: hub0_def StubHub_def commit_current)
  have r: "messageQueue (hub_of (commit sample_env hub1 ''b-server'' ''c2'' 1)) =
     messageQueue hub1 @
       [\<lparr>sender = ''a-server'', receiver = ''a'', payload = [Str ''update'', Num 3, Chg ''c2'']\<rparr>,
        \<lparr>sender = ''b-server'', receiver = ''b'', payload = [Str ''commitDone'']\<rparr>]"
    by (simp add: commit_stale [OF i n] hub_of_def) (simp add: hub1_value)
  from f r show ?thesis by simp
qed

text \<open>
  C6. \<open>clone\<close> hands the constructor the type, the path, the value if it is truthy and
  the diff, and never \<open>original\<close>. The clone of the well-formed
  \<open>Set(["x"], "ab", "new")\<close> has no \<open>original\<close> and so is not equal to the operation
  cloned; the clone of \<open>Set(["x"], "ab", 0)\<close> has lost its value too.
\<close>

theorem clone_drops_original:
  "clone set_x = Inr (set_x\<lparr>original := JUndefined\<rparr>) \<and>
   original set_x = JStr ''ab'' \<and>
   clone set_x \<noteq> Inr set_x \<and>
   clone set_x_zero = Inr (set_x_zero\<lparr>val := JUndefined, original := JUndefined\<rparr>) \<and>
   wellformed set_x \<and> wellformed set_x_zero"
  by (simp add: clone_wellformed samples_wellformed) (simp add: set_x_def set_x_zero_def)

text \<open>
  C7. Rule D-S at the delete of \<open>x\<close> and \<open>Set(["x"], "ab", 0)\<close>. Through \<open>transform\<close> with
  its default options the delete side becomes a NOP and the original of the set side is
  cleared, but the set side does not keep its value 0, and in the flipped orientation the
  value recorded by the delete is replaced by \<open>undefined\<close>, not by 0: the clone that
  \<open>transform\<close> makes first has dropped the falsy value. Transformed in place the delete
  does record the 0 (\<open>transform_inplace_delete_set\<close> is the rule in general), and then
  cannot be inverted, as the constructor takes a falsy value for a missing one.
\<close>

theorem transform_delete_set_falsy_val:
  "transform text_leaf array_leaf default_options delete_x set_x_zero
     = Inr (delete_x\<lparr>otype := NOP\<rparr>,
            set_x_zero\<lparr>otype := CREATE, val := JUndefined, original := JUndefined\<rparr>) \<and>
   transform text_leaf array_leaf default_options set_x_zero delete_x
     = Inr (set_x_zero\<lparr>otype := NOP, val := JUndefined, original := JUndefined\<rparr>,
            delete_x\<lparr>val := JUndefined\<rparr>) \<and>
   val set_x_zero = JNum 0 \<and>
   transform text_leaf array_leaf \<lparr>inplace = True, no_conflict = False\<rparr> set_x_zero delete_x
     = Inr (set_x_zero\<lparr>otype := NOP\<rparr>, delete_x\<lparr>val := JNum 0\<rparr>) \<and>
   invert text_leaf array_leaf (delete_x\<lparr>val := JNum 0\<rparr>)
     = Inl (Error ''Invalid data: value is missing.'')"
  by (simp add: eval_defs invert_def)

text \<open>
  C8. Rule U-U, for two well-formed updates of the same path of which neither diff is a
  leaf NOP, and without the conflict option: if both diffs are text operations the result
  is the pair the leaf text transform produces (its error if it throws), if both are array
  operations the pair the leaf array transform produces, and if one is a text and the
  other an array operation, \<open>transform\<close> raises an error.
\<close>

theorem transform_update_update_rule:
  assumes "wellformed a" and "wellformed b"
    and "otype a = UPDATE" and "otype b = UPDATE" and "path a = path b"
    and "diff a = Some da" and "diff b = Some db"
    and "\<not> diff_isNOP T A da" and "\<not> diff_isNOP T A db"
    and "\<not> no_conflict opts"
  shows "(\<forall>ta tb. da = TextOperation ta \<and> db = TextOperation tb \<longrightarrow>
            transform T A opts a b =
              (case leaf_transform T ta tb of
                 Inl msg \<Rightarrow> Inl (Error msg)
               | Inr (ta', tb') \<Rightarrow>
                   Inr (a\<lparr>diff := Some (TextOperation ta')\<rparr>,
                        b\<lparr>diff := Some (TextOperation tb')\<rparr>))) \<and>
         (\<forall>ra rb. da = ArrayOperation ra \<and> db = ArrayOperation rb \<longrightarrow>
            transform T A opts a b =
              (case leaf_transform A ra rb of
                 Inl msg \<Rightarrow> Inl (Error msg)
               | Inr (ra', rb') \<Rightarrow>
                   Inr (a\<lparr>diff := Some (ArrayOperation ra')\<rparr>,
                        b\<lparr>diff := Some (ArrayOperation rb')\<rparr>))) \<and>
         (\<forall>t r. da = TextOperation t \<and> db = ArrayOperation r \<or>
                 da = ArrayOperation r \<and> db = TextOperation t \<longrightarrow>
            (\<exists>msg. transform T A opts a b = Inl (Error msg)))"
proof -
  have n: "isNOP T A a = Inr False" "isNOP T A b = Inr False"
    using assms by (simp_all add: isNOP_def)
  have t: "transform T A opts a b = transform_update_update T A a b"
    using assms(1-5) n assms(10) by (rule transform_updates)
  have pb: "propertyType b = Some (case db of TextOperation _ \<Rightarrow> PString | ArrayOperation _ \<Rightarrow> PArray)"
    using assms by (auto simp: wellformed_cases)
  show ?thesis
    unfolding t using assms(6,7) pb
    by (auto simp: transform_update_update_text transform_update_update_array
        intro!: transform_update_update_mismatch)
qed

theorem transform_update_update_rule_witness:
  "transform text_leaf array_leaf default_options
       (update_x (TextOperation (SeqInsert 0 ''c''))) (update_x (TextOperation (SeqInsert 1 ''d'')))
     = Inr (update_x (TextOperation (SeqInsert 0 ''c'')),
            update_x (TextOperation (SeqInsert 2 ''d''))) \<and>
   (\<exists>msg. transform text_leaf array_leaf default_options
       (update_x (TextOperation (SeqInsert 0 ''c''))) (update_x (ArrayOperation (SeqInsert 0 [JNum 1])))
     = Inl (Error msg))"
proof -
  have n: "\<not> diff_isNOP text_leaf array_leaf (TextOperation (SeqInsert 0 ''c''))"
    "\<not> diff_isNOP text_leaf array_leaf (TextOperation (SeqInsert 1 ''d''))"
    "\<not> diff_isNOP text_leaf array_leaf (ArrayOperation (SeqInsert 0 [JNum 1]))"
    by (simp_all add: sample_isNOP)
  have o: "\<not> no_conflict default_options"
    by (simp add: default_options_def)
  have p: "path (update_x d) = path (update_x e)" for d e
    by (simp add: update_x_fields)
  note r = transform_update_update_rule
    [OF samples_wellformed(5) samples_wellformed(5) update_x_fields(1) update_x_fields(1) p
        update_x_fields(3) update_x_fields(3)]
  from r [OF n(1) n(2) o] r [OF n(1) n(3) o] show ?thesis
    by (simp add: sample_transform update_x_def)
qed

text \<open>
  The claim as stated fails where one diff is a leaf NOP: for a text NOP against an array
  insertion on the same path \<open>transform\<close> returns the pair unchanged and raises nothing.
\<close>

theorem update_update_NOP_mismatch:
  "transform text_leaf array_leaf default_options
       (update_x (TextOperation SeqNOP)) (update_x (ArrayOperation (SeqInsert 0 [JNum 1])))
     = Inr (update_x (TextOperation SeqNOP), update_x (ArrayOperation (SeqInsert 0 [JNum 1]))) \<and>
   wellformed (update_x (TextOperation SeqNOP)) \<and>
   wellformed (update_x (ArrayOperation (SeqInsert 0 [JNum 1]))) \<and>
   path (update_x (TextOperation SeqNOP)) = path (update_x (ArrayOperation (SeqInsert 0 [JNum 1])))"
  by (simp add: transform_def default_options_def clone_Update samples_wellformed update_x_fields
      isNOP_def sample_isNOP)

text \<open>
  C9. With the conflict option set, \<open>transform\<close> raises a \<open>Conflict\<close> exactly when the two
  operations have equal paths and neither has the type NOP, and the \<open>Conflict\<close> carries
  the two operands as they were passed. With the option unset it never raises a
  \<open>Conflict\<close>, nor does it with the option set when either operation is a NOP or the
  paths differ: every \<open>Conflict\<close> that \<open>transform\<close> raises is the one of this case.
\<close>

theorem transform_Conflict_iff:
  "transform T A opts a b = Inl (Conflict x y) \<longleftrightarrow>
     no_conflict opts \<and> otype a \<noteq> NOP \<and> otype b \<noteq> NOP \<and> path a = path b \<and> x = a \<and> y = b"
proof (cases "no_conflict opts \<and> hasConflict a b")
  case True
  then have "transform T A opts a b = Inl (Conflict a b)"
    by (simp add: transform_def)
  with True show ?thesis
    by (auto simp: hasConflict_def split: if_splits)
next
  case False
  then have "transform T A opts a b \<noteq> Inl (Conflict x y)"
    by (rule transform_rest_no_Conflict)
  with False show ?thesis
    by (auto simp: hasConflict_def split: if_splits)
qed

theorem transform_Conflict_iff_witness:
  "transform text_leaf array_leaf \<lparr>inplace = False, no_conflict = True\<rparr> delete_x set_x
     = Inl (Conflict delete_x set_x)"
  using transform_Conflict_iff
    [of text_leaf array_leaf "\<lparr>inplace = False, no_conflict = True\<rparr>" delete_x set_x
        delete_x set_x]
  by (simp add: delete_x_def set_x_def)

text \<open>
  C10. The conflict check precedes the NOP short-circuit and reads the type tag. For two
  well-formed updates of the same path of which one has a leaf NOP as its diff (so that
  \<open>isNOP\<close> answers true for it although its type is not NOP), \<open>transform\<close> with the
  conflict option raises the \<open>Conflict\<close> of the two, and without the option returns the
  pair unchanged.
\<close>

theorem conflict_check_precedes_NOP_shortcut:
  assumes "wellformed a" and "wellformed b"
    and "otype a = UPDATE" and "otype b = UPDATE" and "path a = path b"
    and "isNOP T A a = Inr True \<or> isNOP T A b = Inr True"
  shows "transform T A \<lparr>inplace = i, no_conflict = True\<rparr> a b = Inl (Conflict a b) \<and>
         transform T A \<lparr>inplace = i, no_conflict = False\<rparr> a b = Inr (a, b) \<and>
         otype a \<noteq> NOP \<and> otype b \<noteq> NOP"
proof -
  have c: "clone a = Inr a" "clone b = Inr b"
    using assms by (simp_all add: clone_Update)
  obtain na nb where n: "isNOP T A a = Inr na" "isNOP T A b = Inr nb" "na \<or> nb"
    using assms by (auto simp: isNOP_def wellformed_cases)
  have 1: "transform T A \<lparr>inplace = i, no_conflict = True\<rparr> a b = Inl (Conflict a b)"
    using assms by (simp add: transform_def hasConflict_def)
  have 2: "transform T A \<lparr>inplace = i, no_conflict = False\<rparr> a b = Inr (a, b)"
    using n c by (cases na; cases nb) (simp_all add: transform_def)
  from 1 2 assms show ?thesis by simp
qed

theorem conflict_check_precedes_NOP_shortcut_witness:
  "isNOP text_leaf array_leaf (update_x (TextOperation SeqNOP)) = Inr True \<and>
   transform text_leaf array_leaf \<lparr>inplace = False, no_conflict = True\<rparr>
       (update_x (TextOperation SeqNOP)) (update_x (TextOperation (SeqInsert 0 ''c'')))
     = Inl (Conflict (update_x (TextOperation SeqNOP)) (update_x (TextOperation (SeqInsert 0 ''c'')))) \<and>
   transform text_leaf array_leaf \<lparr>inplace = False, no_conflict = False\<rparr>
       (update_x (TextOperation SeqNOP)) (update_x (TextOperation (SeqInsert 0 ''c'')))
     = Inr (update_x (TextOperation SeqNOP), update_x (TextOperation (SeqInsert 0 ''c'')))"
proof -
  have n: "isNOP text_leaf array_leaf (update_x (TextOperation SeqNOP)) = Inr True"
    by (simp add: isNOP_def update_x_def diff_isNOP_def text_leaf_def seq_leaf_def)
  have p: "path (update_x (TextOperation SeqNOP)) = path (update_x (TextOperation (SeqInsert 0 ''c'')))"
    "otype (update_x (TextOperation SeqNOP)) = UPDATE"
    "otype (update_x (TextOperation (SeqInsert 0 ''c''))) = UPDATE"
    by (simp_all add: update_x_def)
  show ?thesis
    using conflict_check_precedes_NOP_shortcut
      [OF samples_wellformed(5) samples_wellformed(5) p(2) p(3) p(1) disjI1 [OF n], of False] n
    by simp
qed

end
